theory Spec2Isabelle
  imports Complex_Main "HOL-Library.Multiset"
begin

section \<open>Mention extraction\<close>

text \<open>
  A Python \<^verbatim>\<open>str\<close> is a sequence of Unicode code points. The texts that are scanned
  for mentions are lists of code points, since the class \<^verbatim>\<open>\d\<close> of the pattern is a
  class of code points; \<open>codepoints\<close> gives the code points of a text of ASCII
  characters.
\<close>

type_synonym pystr = "nat list"

definition codepoints :: "string \<Rightarrow> pystr" where
  "codepoints s = map of_char s"

definition hash_sign :: nat where
  "hash_sign = of_char (CHR ''#'')"

text \<open>
  In a \<^verbatim>\<open>str\<close> pattern \<^verbatim>\<open>\d\<close> matches every Unicode decimal digit (category \<^verbatim>\<open>Nd\<close>), and
  \<^verbatim>\<open>int\<close> reads every such digit with its value. Below 128 these are the ten ASCII
  digits in every version of Unicode. The digits from 128 on come from the Unicode
  database of the interpreter, which is no part of this program: they are the
  parameter \<open>ext\<close>, which gives the value of a code point that is a decimal digit.
\<close>

type_synonym digit_table = "nat \<Rightarrow> nat option"

definition decimal :: "digit_table \<Rightarrow> nat \<Rightarrow> nat option" where
  "decimal ext c =
     (if c < 128 then (if 48 \<le> c \<and> c \<le> 57 then Some (c - 48) else None) else ext c)"

definition is_digit :: "digit_table \<Rightarrow> nat \<Rightarrow> bool" where
  "is_digit ext c = (decimal ext c \<noteq> None)"

text \<open>
  The decimal digits from 128 on in Unicode 14.0, the version of Python 3.11, which the
  notebook names as its interpreter: 65 blocks of ten consecutive code points with the
  values 0 to 9, given by the code points of their zeros.
\<close>

definition nd_zeros :: "nat list" where
  "nd_zeros =
     [1632, 1776, 1984, 2406, 2534, 2662, 2790, 2918, 3046, 3174, 3302, 3430, 3558, 3664,
      3792, 3872, 4160, 4240, 6112, 6160, 6470, 6608, 6784, 6800, 6992, 7088, 7232, 7248,
      42528, 43216, 43264, 43472, 43504, 43600, 44016, 65296, 66720, 68912, 69734, 69872,
      69942, 70096, 70384, 70736, 70864, 71248, 71360, 71472, 71904, 72016, 72784, 73040,
      73120, 92768, 92864, 93008, 120782, 120792, 120802, 120812, 120822, 123200, 123632,
      125264, 130032]"

definition unicode_14 :: digit_table where
  "unicode_14 c = map_option (\<lambda>z. c - z) (find (\<lambda>z. z \<le> c \<and> c < z + 10) nd_zeros)"

text \<open>
  The linker cell of \<^verbatim>\<open>analysis.ipynb\<close> extracts issue mentions with
  \<^verbatim>\<open>str.extractall("#(\d{1,4})")\<close>. The pattern is scanned from left to right: at each
  position the character \<^verbatim>\<open>#\<close> followed by a greedy run of one to four digits is a
  match, the scan goes on behind the match, and a position without a match is skipped.
\<close>

text \<open>The greedy group \<^verbatim>\<open>\d{1,4}\<close> at the head of a text: the longest run of digits, at most \<open>n\<close> long.\<close>

definition digit_run :: "digit_table \<Rightarrow> nat \<Rightarrow> pystr \<Rightarrow> pystr" where
  "digit_run ext n s = takeWhile (is_digit ext) (take n s)"

fun extractall :: "digit_table \<Rightarrow> pystr \<Rightarrow> pystr list" where
  "extractall ext [] = []"
| "extractall ext (c # cs) =
     (if c = hash_sign \<and> digit_run ext 4 cs \<noteq> []
      then digit_run ext 4 cs # extractall ext (drop (length (digit_run ext 4 cs)) cs)
      else extractall ext cs)"

text \<open>
  Python's \<^verbatim>\<open>int\<close> on a run of decimal digits, which is all it is applied to here: the
  matches of the pattern.
\<close>

definition digit_value :: "digit_table \<Rightarrow> nat \<Rightarrow> int" where
  "digit_value ext c = (case decimal ext c of Some d \<Rightarrow> int d | None \<Rightarrow> 0)"

definition int_of_digits :: "digit_table \<Rightarrow> pystr \<Rightarrow> int" where
  "int_of_digits ext s = foldl (\<lambda>acc c. 10 * acc + digit_value ext c) 0 s"

text \<open>The mentioned numbers of one text, in the order of their matches.\<close>

definition mentions :: "digit_table \<Rightarrow> pystr \<Rightarrow> int list" where
  "mentions ext s = map (int_of_digits ext) (extractall ext s)"


section \<open>The flat export\<close>

text \<open>
  One row of the export, with the columns the notebook reads: \<^verbatim>\<open>issue.url\<close>,
  \<^verbatim>\<open>issue.html_url\<close>, \<^verbatim>\<open>issue.closed_at\<close>, \<^verbatim>\<open>issue.labels\<close>, \<^verbatim>\<open>issue.body\<close>,
  \<^verbatim>\<open>comment.created_at\<close>, \<^verbatim>\<open>comment.body\<close> and \<^verbatim>\<open>issue.number\<close>. A cell that is
  empty in the file is \<^verbatim>\<open>NaN\<close> in the table and \<open>None\<close> here. The text columns are
  taken to be columns of strings with missing entries (the \<^verbatim>\<open>object\<close> columns read
  from an export that holds at least one value in each of them). The two body columns,
  which are scanned for mentions, are texts of code points; the other text columns are
  only compared, searched for the letters \<^verbatim>\<open>pull\<close> or handed to the decoder, and are
  strings of characters.
\<close>

record raw_record =
  url :: string
  html_url :: "string option"
  closed_at :: "string option"
  labels :: "string option"
  body :: "pystr option"
  comment_created_at :: "string option"
  comment_body :: "pystr option"
  number :: int

text \<open>
  A table is the list of its rows, each with its index label. \<^verbatim>\<open>pd.read_csv\<close> numbers
  the rows \<open>0, 1, 2, \<dots>\<close>, and every selection of rows keeps the labels of the rows it
  selects.
\<close>

type_synonym frame = "(nat \<times> raw_record) list"

definition read_csv :: "raw_record list \<Rightarrow> frame" where
  "read_csv rows = zip [0..<length rows] rows"

datatype error = MaskError | TypeError | KeyError | DecodeError

text \<open>
  \<^verbatim>\<open>df[mask]\<close>: the rows whose mask entry is true. A mask of truth values with a missing
  entry is refused (\<^verbatim>\<open>Cannot mask with non-boolean array containing NA / NaN values\<close>).
\<close>

definition select_rows :: "(raw_record \<Rightarrow> bool option) \<Rightarrow> frame \<Rightarrow> error + frame" where
  "select_rows msk df =
     (if list_ex (\<lambda>(i, r). msk r = None) df then Inl MaskError
      else Inr (filter (\<lambda>(i, r). msk r = Some True) df))"

text \<open>\<^verbatim>\<open>df[~mask]\<close> for a mask without missing entries.\<close>

definition select_not :: "(raw_record \<Rightarrow> bool option) \<Rightarrow> frame \<Rightarrow> frame" where
  "select_not msk df = filter (\<lambda>(i, r). msk r = Some False) df"

section \<open>Record classifier\<close>

text \<open>\<^verbatim>\<open>str.contains(pat)\<close> for a pattern of plain letters: \<open>pat\<close> occurs somewhere in the text.\<close>

fun str_contains :: "string \<Rightarrow> string \<Rightarrow> bool" where
  "str_contains [] pat = (pat = [])"
| "str_contains (c # cs) pat = (take (length pat) (c # cs) = pat \<or> str_contains cs pat)"

definition closed_filter :: "raw_record \<Rightarrow> bool" where
  "closed_filter r = (closed_at r \<noteq> None)"

text \<open>The entry of \<^verbatim>\<open>pr_filter\<close> for a row: missing where \<^verbatim>\<open>issue.html_url\<close> is missing.\<close>

definition pr_filter :: "raw_record \<Rightarrow> bool option" where
  "pr_filter r = map_option (\<lambda>u. str_contains u ''pull'') (html_url r)"

text \<open>
  \<^verbatim>\<open>pr_comment_filter\<close> and \<^verbatim>\<open>issue_comment_filter\<close>: \<^verbatim>\<open>pd.isna\<close> of
  \<^verbatim>\<open>comment.created_at\<close>, true for the rows that are no comments.
\<close>

definition comment_filter :: "raw_record \<Rightarrow> bool" where
  "comment_filter r = (comment_created_at r = None)"

record classified =
  issues :: frame
  issue_comments :: frame
  prs :: frame
  pr_comments :: frame

definition classify :: "frame \<Rightarrow> error + classified" where
  "classify df =
     (let closed_prs_and_issues = filter (\<lambda>(i, r). closed_filter r) df in
      case select_rows pr_filter closed_prs_and_issues of
        Inl e \<Rightarrow> Inl e
      | Inr prs_and_comments \<Rightarrow>
          let issues_and_comments = select_not pr_filter closed_prs_and_issues in
          Inr \<lparr> issues = filter (\<lambda>(i, r). comment_filter r) issues_and_comments,
                issue_comments = filter (\<lambda>(i, r). \<not> comment_filter r) issues_and_comments,
                prs = filter (\<lambda>(i, r). comment_filter r) prs_and_comments,
                pr_comments = filter (\<lambda>(i, r). \<not> comment_filter r) prs_and_comments \<rparr>)"

section \<open>Label predicate and label statistics\<close>

text \<open>
  The value \<^verbatim>\<open>json.loads\<close> returns. The scalars other than strings (\<^verbatim>\<open>None\<close>, truth
  values, numbers) are the values of the type parameter, taken up to Python's \<^verbatim>\<open>==\<close>.
  An object is the list of its members, each key once and in the order of the text; a
  key is looked up with \<open>map_of\<close>.
\<close>

datatype 'a json =
    JScalar 'a
  | JStr string
  | JArr "'a json list"
  | JObj "(string \<times> 'a json) list"

text \<open>
  \<^verbatim>\<open>json.loads\<close> belongs to Python's standard library, not to this program: the
  decoder of a text is a parameter \<open>loads\<close> of the model, and every theorem below holds
  for every decoder. A text that is no JSON document is an error of the decoder.
\<close>

type_synonym 'a decoder = "string \<Rightarrow> error + 'a json"

definition bind_err :: "error + 'b \<Rightarrow> ('b \<Rightarrow> error + 'c) \<Rightarrow> error + 'c" where
  "bind_err m f = (case m of Inl e \<Rightarrow> Inl e | Inr x \<Rightarrow> f x)"

text \<open>\<^verbatim>\<open>json.loads(item)\<close> on a cell of the table: a missing cell is a float, which is refused.\<close>

definition json_loads :: "'a decoder \<Rightarrow> string option \<Rightarrow> error + 'a json" where
  "json_loads loads item = (case item of None \<Rightarrow> Inl TypeError | Some s \<Rightarrow> loads s)"

text \<open>
  \<^verbatim>\<open>for label in labels\<close>: a list gives its elements, an object its keys, a string its
  characters as strings of length one; a scalar cannot be iterated.
\<close>

fun iter :: "'a json \<Rightarrow> error + 'a json list" where
  "iter (JArr xs) = Inr xs"
| "iter (JObj kvs) = Inr (map (\<lambda>(k, v). JStr k) kvs)"
| "iter (JStr s) = Inr (map (\<lambda>c. JStr [c]) s)"
| "iter (JScalar a) = Inl TypeError"

text \<open>\<^verbatim>\<open>label["name"]\<close>: only an object takes a string as subscript, and the key must be there.\<close>

fun getitem_name :: "'a json \<Rightarrow> error + 'a json" where
  "getitem_name (JObj kvs) = (case map_of kvs ''name'' of None \<Rightarrow> Inl KeyError | Some v \<Rightarrow> Inr v)"
| "getitem_name (JArr xs) = Inl TypeError"
| "getitem_name (JStr s) = Inl TypeError"
| "getitem_name (JScalar a) = Inl TypeError"

text \<open>
  The loop of \<^verbatim>\<open>has_label\<close>. The name given is the string \<^verbatim>\<open>"bug"\<close> or a member of
  \<^verbatim>\<open>all_bug_labels\<close>, a string or a scalar, for which \<^verbatim>\<open>==\<close> is the equality of \<open>'a json\<close>.
\<close>

fun has_label_loop :: "'a json list \<Rightarrow> 'a json \<Rightarrow> error + bool" where
  "has_label_loop [] label_name = Inr False"
| "has_label_loop (label # rest) label_name =
     bind_err (getitem_name label)
       (\<lambda>name. if name = label_name then Inr True else has_label_loop rest label_name)"

definition has_label :: "'a decoder \<Rightarrow> string option \<Rightarrow> 'a json \<Rightarrow> error + bool" where
  "has_label loads item label_name =
     bind_err (json_loads loads item)
       (\<lambda>decoded. bind_err (iter decoded) (\<lambda>ls. has_label_loop ls label_name))"

definition is_bug :: "'a decoder \<Rightarrow> string option \<Rightarrow> error + bool" where
  "is_bug loads item = has_label loads item (JStr ''bug'')"

text \<open>\<^verbatim>\<open>column.apply(f)\<close>: \<open>f\<close> on every entry in the order of the rows; the first error ends it.\<close>

fun apply_column :: "('b \<Rightarrow> error + 'c) \<Rightarrow> 'b list \<Rightarrow> error + 'c list" where
  "apply_column f [] = Inr []"
| "apply_column f (x # xs) =
     bind_err (f x) (\<lambda>y. bind_err (apply_column f xs) (\<lambda>ys. Inr (y # ys)))"

definition bug_mask :: "'a decoder \<Rightarrow> frame \<Rightarrow> error + bool list" where
  "bug_mask loads issues_frame = apply_column (\<lambda>(i, r). is_bug loads (labels r)) issues_frame"

definition bug_issues :: "'a decoder \<Rightarrow> frame \<Rightarrow> error + frame" where
  "bug_issues loads issues_frame =
     bind_err (bug_mask loads issues_frame)
       (\<lambda>msk. Inr (map fst (filter snd (zip issues_frame msk))))"

definition bug_numbers :: "frame \<Rightarrow> int list" where
  "bug_numbers bugs = map (\<lambda>(i, r). number r) bugs"

text \<open>
  \<^verbatim>\<open>all_bug_labels\<close> is a Python set; it is modelled by the list of its members in the
  order in which they were added. A name that is a list or an object cannot be hashed,
  so the membership test raises.
\<close>

fun hashable :: "'a json \<Rightarrow> bool" where
  "hashable (JScalar a) = True"
| "hashable (JStr s) = True"
| "hashable (JArr xs) = False"
| "hashable (JObj kvs) = False"

fun add_names :: "'a json list \<Rightarrow> 'a json list \<Rightarrow> error + 'a json list" where
  "add_names [] acc = Inr acc"
| "add_names (label # rest) acc =
     bind_err (getitem_name label)
       (\<lambda>name. if \<not> hashable name then Inl TypeError
               else add_names rest (if name \<notin> set acc then acc @ [name] else acc))"

fun collect_labels :: "'a decoder \<Rightarrow> frame \<Rightarrow> 'a json list \<Rightarrow> error + 'a json list" where
  "collect_labels loads [] acc = Inr acc"
| "collect_labels loads ((idx, bug) # rest) acc =
     bind_err (json_loads loads (labels bug))
       (\<lambda>decoded. bind_err (iter decoded)
          (\<lambda>ls. bind_err (add_names ls acc) (\<lambda>acc'. collect_labels loads rest acc')))"

definition all_bug_labels :: "'a decoder \<Rightarrow> frame \<Rightarrow> error + 'a json list" where
  "all_bug_labels loads bugs = collect_labels loads bugs []"

text \<open>
  The statistics cell: for every member of \<^verbatim>\<open>all_bug_labels\<close> the count \<^verbatim>\<open>label_count\<close>
  (the number of true entries of the applied column) and the proportion
  \<^verbatim>\<open>label_count/total_bugs\<close>. The proportion is the exact quotient of the two integers;
  the notebook prints the float nearest to it.
\<close>

definition label_count :: "'a decoder \<Rightarrow> frame \<Rightarrow> 'a json \<Rightarrow> error + nat" where
  "label_count loads bugs bug_label =
     bind_err (apply_column (\<lambda>(i, r). has_label loads (labels r) bug_label) bugs)
       (\<lambda>hits. Inr (length (filter (\<lambda>b. b) hits)))"

definition proportion :: "nat \<Rightarrow> nat \<Rightarrow> rat" where
  "proportion cnt total_bugs = of_nat cnt / of_nat total_bugs"

fun label_stats :: "'a decoder \<Rightarrow> frame \<Rightarrow> 'a json list \<Rightarrow> error + ('a json \<times> nat \<times> rat) list" where
  "label_stats loads bugs [] = Inr []"
| "label_stats loads bugs (bug_label # rest) =
     bind_err (label_count loads bugs bug_label)
       (\<lambda>cnt. bind_err (label_stats loads bugs rest)
          (\<lambda>stats. Inr ((bug_label, cnt, proportion cnt (length bugs)) # stats)))"

text \<open>
  A decoder given by a table of texts and their values, for running the model on
  concrete label cells; the tables used below pair a text with the value
  \<^verbatim>\<open>json.loads\<close> returns for it.
\<close>

definition table_decoder :: "(string \<times> 'a json) list \<Rightarrow> 'a decoder" where
  "table_decoder tbl s = (case map_of tbl s of None \<Rightarrow> Inl DecodeError | Some v \<Rightarrow> Inr v)"

text \<open>The names of all labels of a row, in their order, when every element of the decoded cell has one.\<close>

definition label_names :: "'a decoder \<Rightarrow> raw_record \<Rightarrow> error + 'a json list" where
  "label_names loads r =
     bind_err (json_loads loads (labels r))
       (\<lambda>decoded. bind_err (iter decoded) (\<lambda>ls. apply_column getitem_name ls))"


section \<open>The label predicate on objects\<close>

text \<open>
  \<^verbatim>\<open>json.loads\<close> builds new objects at every call: decoding the same text twice gives
  two objects with equal contents at different addresses. An object store gives the
  object at every address; the elements of a list and the values of the members of a
  dictionary are addresses.
\<close>

datatype 'a obj = OScalar 'a | OStr string | OList "nat list" | ODict "(string \<times> nat) list"

type_synonym 'a store = "nat \<Rightarrow> 'a obj"

text \<open>
  What \<^verbatim>\<open>for label in labels\<close> yields: the element at an address of a list, or a string
  (a key of a dictionary, a character of a string).
\<close>

datatype item = At nat | Text string

fun iter_obj :: "'a store \<Rightarrow> nat \<Rightarrow> error + item list" where
  "iter_obj st a =
     (case st a of
        OList elems \<Rightarrow> Inr (map At elems)
      | ODict members \<Rightarrow> Inr (map (\<lambda>(k, v). Text k) members)
      | OStr s \<Rightarrow> Inr (map (\<lambda>c. Text [c]) s)
      | OScalar x \<Rightarrow> Inl TypeError)"

fun getitem_name_obj :: "'a store \<Rightarrow> item \<Rightarrow> error + nat" where
  "getitem_name_obj st (At a) =
     (case st a of
        ODict members \<Rightarrow> (case map_of members ''name'' of None \<Rightarrow> Inl KeyError | Some v \<Rightarrow> Inr v)
      | _ \<Rightarrow> Inl TypeError)"
| "getitem_name_obj st (Text s) = Inl TypeError"

text \<open>
  The loop of \<^verbatim>\<open>has_label\<close> on the object that \<^verbatim>\<open>json.loads(item)\<close> returned, for a label
  name that is a string: \<^verbatim>\<open>label["name"] == label_name\<close> holds when the object at the
  address of the name is a string with the characters of \<open>label_name\<close>.
\<close>

fun has_label_loop_obj :: "'a store \<Rightarrow> item list \<Rightarrow> string \<Rightarrow> error + bool" where
  "has_label_loop_obj st [] label_name = Inr False"
| "has_label_loop_obj st (label # rest) label_name =
     bind_err (getitem_name_obj st label)
       (\<lambda>name. if st name = OStr label_name then Inr True
               else has_label_loop_obj st rest label_name)"

definition has_label_obj :: "'a store \<Rightarrow> nat \<Rightarrow> string \<Rightarrow> error + bool" where
  "has_label_obj st labels_at label_name =
     bind_err (iter_obj st labels_at) (\<lambda>ls. has_label_loop_obj st ls label_name)"

text \<open>The object at an address of the store has the contents of a decoded value.\<close>

primrec represents :: "'a json \<Rightarrow> 'a store \<Rightarrow> nat \<Rightarrow> bool" where
  "represents (JScalar x) st a = (st a = OScalar x)"
| "represents (JStr s) st a = (st a = OStr s)"
| "represents (JArr js) st a =
     (case st a of
        OList elems \<Rightarrow> list_all2 (\<lambda>r e. r st e) (map represents js) elems
      | _ \<Rightarrow> False)"
| "represents (JObj kvs) st a =
     (case st a of
        ODict members \<Rightarrow>
          list_all2 (\<lambda>(k, r) (k', v). k = k' \<and> r st v) (map (map_prod id represents) kvs) members
      | _ \<Rightarrow> False)"

section \<open>Bug-mention linker\<close>

text \<open>
  \<^verbatim>\<open>column.str.extractall("#(\d{1,4})")[0]\<close>: one entry per match, labelled with the
  pair of the row's label and the number of the match within the row, counted from
  zero. A row whose text is missing has no match.
\<close>

definition row_matches :: "digit_table \<Rightarrow> nat \<Rightarrow> pystr option \<Rightarrow> ((nat \<times> nat) \<times> pystr) list" where
  "row_matches ext i cell =
     (case cell of None \<Rightarrow> []
      | Some s \<Rightarrow> map (\<lambda>(k, m). ((i, k), m))
                   (zip [0..<length (extractall ext s)] (extractall ext s)))"

definition extractall_column ::
  "digit_table \<Rightarrow> (raw_record \<Rightarrow> pystr option) \<Rightarrow> frame \<Rightarrow> ((nat \<times> nat) \<times> pystr) list" where
  "extractall_column ext col df = concat (map (\<lambda>(i, r). row_matches ext i (col r)) df)"

text \<open>\<^verbatim>\<open>series.loc[idx]\<close>: the entries whose first label is \<open>idx\<close>.\<close>

definition loc :: "((nat \<times> nat) \<times> pystr) list \<Rightarrow> nat \<Rightarrow> pystr list" where
  "loc series idx = map snd (filter (\<lambda>((i, k), m). i = idx) series)"

text \<open>
  The table of bug numbers is a global of the notebook; it is the argument \<open>bug_values\<close>
  (the array \<^verbatim>\<open>bug_numbers.values\<close>) of the definitions below.
\<close>

definition does_mention_bug :: "digit_table \<Rightarrow> int list \<Rightarrow> pystr list \<Rightarrow> bool" where
  "does_mention_bug ext bug_values numbers =
     list_ex (\<lambda>num. num \<in> set bug_values) (map (int_of_digits ext) numbers)"

text \<open>The body of the loop over \<^verbatim>\<open>prs.index\<close>: the entry of \<^verbatim>\<open>mention_filter\<close> for one label.\<close>

definition mentions_bug ::
  "digit_table \<Rightarrow> int list \<Rightarrow> ((nat \<times> nat) \<times> pystr) list \<Rightarrow> ((nat \<times> nat) \<times> pystr) list \<Rightarrow> nat \<Rightarrow> bool" where
  "mentions_bug ext bug_values mentioned_numbers mentioned_numbers_comments idx =
     ((if (idx, 0) \<in> set (map fst mentioned_numbers)
       then does_mention_bug ext bug_values (loc mentioned_numbers idx) else False)
      \<or>
      (if (idx, 0) \<in> set (map fst mentioned_numbers_comments)
       then does_mention_bug ext bug_values (loc mentioned_numbers_comments idx) else False))"

definition prs_that_mention :: "digit_table \<Rightarrow> int list \<Rightarrow> frame \<Rightarrow> frame \<Rightarrow> frame" where
  "prs_that_mention ext bug_values prs_frame pr_comments_frame =
     (let mentioned_numbers = extractall_column ext body prs_frame;
          mentioned_numbers_comments = extractall_column ext comment_body pr_comments_frame
      in filter (\<lambda>(idx, r). mentions_bug ext bug_values mentioned_numbers mentioned_numbers_comments idx)
           prs_frame)"

section \<open>A small export\<close>

text \<open>
  Rows in the shape of the export of \<^verbatim>\<open>llvm/circt\<close>: two closed issues labelled as bugs
  and one that is not, three closed pull requests, a comment on the third of them, an
  open issue, and a comment on a closed issue. The comment rows repeat the columns of
  their thread.
\<close>

definition labels_bug_firrtl :: string where
  \<open>labels_bug_firrtl = ''[{"name": "bug"}, {"name": "FIRRTL"}]''\<close>

definition labels_bug :: string where
  \<open>labels_bug = ''[{"name": "bug"}]''\<close>

definition labels_enhancement :: string where
  \<open>labels_enhancement = ''[{"name": "enhancement"}]''\<close>

definition labels_bug_then_number :: string where
  \<open>labels_bug_then_number = ''[{"name": "bug"}, 7]''\<close>

definition bug_issue_99 :: raw_record where
  "bug_issue_99 = \<lparr> url = ''https://api.github.com/repos/llvm/circt/issues/99'',
      html_url = Some ''https://github.com/llvm/circt/issues/99'',
      closed_at = Some ''2022-03-01T10:00:00Z'',
      labels = Some labels_bug_firrtl,
      body = Some (codepoints ''Crash in the lowering pass''),
      comment_created_at = None, comment_body = None, number = 99 \<rparr>"

definition pr_100 :: raw_record where
  "pr_100 = \<lparr> url = ''https://api.github.com/repos/llvm/circt/issues/100'',
      html_url = Some ''https://github.com/llvm/circt/pull/100'',
      closed_at = Some ''2022-03-02T10:00:00Z'',
      labels = Some ''[]'',
      body = Some (codepoints ''See issue #12''),
      comment_created_at = None, comment_body = None, number = 100 \<rparr>"

definition pr_101 :: raw_record where
  "pr_101 = \<lparr> url = ''https://api.github.com/repos/llvm/circt/issues/101'',
      html_url = Some ''https://github.com/llvm/circt/pull/101'',
      closed_at = Some ''2022-03-03T10:00:00Z'',
      labels = Some ''[]'',
      body = Some (codepoints ''See issue #13''),
      comment_created_at = None, comment_body = None, number = 101 \<rparr>"

definition pr_102 :: raw_record where
  "pr_102 = \<lparr> url = ''https://api.github.com/repos/llvm/circt/issues/102'',
      html_url = Some ''https://github.com/llvm/circt/pull/102'',
      closed_at = Some ''2022-03-04T10:00:00Z'',
      labels = Some ''[]'',
      body = None,
      comment_created_at = None, comment_body = None, number = 102 \<rparr>"

definition pr_102_comment :: raw_record where
  "pr_102_comment = pr_102 \<lparr> comment_created_at := Some ''2022-03-04T11:00:00Z'',
      comment_body := Some (codepoints ''#99'') \<rparr>"

definition open_issue_103 :: raw_record where
  "open_issue_103 = \<lparr> url = ''https://api.github.com/repos/llvm/circt/issues/103'',
      html_url = Some ''https://github.com/llvm/circt/issues/103'',
      closed_at = None,
      labels = Some labels_bug,
      body = Some (codepoints ''Still failing''),
      comment_created_at = None, comment_body = None, number = 103 \<rparr>"

definition issue_99_comment :: raw_record where
  "issue_99_comment = bug_issue_99 \<lparr> comment_created_at := Some ''2022-03-01T09:00:00Z'',
      comment_body := Some (codepoints ''Reproduced'') \<rparr>"

definition bug_issue_12 :: raw_record where
  "bug_issue_12 = \<lparr> url = ''https://api.github.com/repos/llvm/circt/issues/12'',
      html_url = Some ''https://github.com/llvm/circt/issues/12'',
      closed_at = Some ''2021-01-05T10:00:00Z'',
      labels = Some labels_bug,
      body = Some (codepoints ''Wrong width after folding''),
      comment_created_at = None, comment_body = None, number = 12 \<rparr>"

definition issue_97 :: raw_record where
  "issue_97 = \<lparr> url = ''https://api.github.com/repos/llvm/circt/issues/97'',
      html_url = Some ''https://github.com/llvm/circt/issues/97'',
      closed_at = Some ''2022-02-20T10:00:00Z'',
      labels = Some labels_enhancement,
      body = Some (codepoints ''Add a dialect''),
      comment_created_at = None, comment_body = None, number = 97 \<rparr>"

definition example_export :: "raw_record list" where
  "example_export = [bug_issue_99, pr_100, pr_101, pr_102, pr_102_comment, open_issue_103,
     issue_99_comment, bug_issue_12, issue_97]"

definition example_classified :: classified where
  "example_classified =
     \<lparr> issues = [(0, bug_issue_99), (7, bug_issue_12), (8, issue_97)],
       issue_comments = [(6, issue_99_comment)],
       prs = [(1, pr_100), (2, pr_101), (3, pr_102)],
       pr_comments = [(4, pr_102_comment)] \<rparr>"

text \<open>The values \<^verbatim>\<open>json.loads\<close> returns for the label cells used here.\<close>

definition example_decoder :: "int decoder" where
  "example_decoder = table_decoder
     [(labels_bug_firrtl, JArr [JObj [(''name'', JStr ''bug'')], JObj [(''name'', JStr ''FIRRTL'')]]),
      (labels_bug, JArr [JObj [(''name'', JStr ''bug'')]]),
      (labels_enhancement, JArr [JObj [(''name'', JStr ''enhancement'')]]),
      (labels_bug_then_number, JArr [JObj [(''name'', JStr ''bug'')], JScalar 7]),
      (''[]'', JArr []),
      (''{}'', JObj [])]"

text \<open>
  A store after decoding the text \<open>labels_bug_firrtl\<close> twice: the first decoding is at
  the addresses 0 to 4, the second at the addresses 10 to 14.
\<close>

definition two_decodings :: "int store" where
  "two_decodings =
     (\<lambda>a. OScalar 0)
       (0 := OList [1, 3], 1 := ODict [(''name'', 2)], 2 := OStr ''bug'',
        3 := ODict [(''name'', 4)], 4 := OStr ''FIRRTL'',
        10 := OList [11, 13], 11 := ODict [(''name'', 12)], 12 := OStr ''bug'',
        13 := ODict [(''name'', 14)], 14 := OStr ''FIRRTL'')"

text \<open>A closed row whose \<^verbatim>\<open>issue.html_url\<close> has neither an issue path nor a pull path.\<close>

definition malformed_row :: raw_record where
  "malformed_row = \<lparr> url = ''https://api.github.com/repos/llvm/circt/issues/104'',
      html_url = Some ''https://github.com/llvm/circt/wiki/104'',
      closed_at = Some ''2022-03-05T10:00:00Z'',
      labels = Some ''[]'',
      body = Some (codepoints ''Moved''),
      comment_created_at = None, comment_body = None, number = 104 \<rparr>"

text \<open>A closed row without \<^verbatim>\<open>issue.html_url\<close>.\<close>

definition no_html_url_row :: raw_record where
  "no_html_url_row = malformed_row \<lparr> html_url := None \<rparr>"


section \<open>Properties of mention extraction\<close>

lemmas mention_eval =
  codepoints_def hash_sign_def digit_run_def is_digit_def decimal_def mentions_def
  int_of_digits_def digit_value_def

lemma hash_sign_no_digit: "\<not> is_digit ext hash_sign"
  by (simp add: is_digit_def decimal_def hash_sign_def)

lemma is_digit_iff: "is_digit ext d = ((48 \<le> d \<and> d \<le> 57) \<or> (128 \<le> d \<and> ext d \<noteq> None))"
  by (auto simp: is_digit_def decimal_def)

lemma digit_run_digits: "c \<in> set (digit_run ext n s) \<Longrightarrow> is_digit ext c"
  unfolding digit_run_def by (auto dest: set_takeWhileD)

lemma digit_run_length: "length (digit_run ext n s) \<le> n"
  unfolding digit_run_def by (rule order_trans[OF length_takeWhile_le]) simp

lemma digit_run_app:
  assumes "\<forall>c\<in>set ds. is_digit ext c" and "length ds \<le> n"
    and "length ds = n \<or> rest = [] \<or> \<not> is_digit ext (hd rest)"
  shows "digit_run ext n (ds @ rest) = ds"
proof -
  have "takeWhile (is_digit ext) (take (n - length ds) rest) = []"
    using assms(3) by (cases rest; cases "n - length ds") auto
  then show ?thesis
    using assms(1,2) unfolding digit_run_def by (simp add: takeWhile_append2)
qed

lemma digit_run_none:
  assumes "cs = [] \<or> \<not> is_digit ext (hd cs)"
  shows "digit_run ext n cs = []"
  using assms unfolding digit_run_def by (cases cs; cases n) auto

lemma extractall_shape:
  "m \<in> set (extractall ext s) \<Longrightarrow> m \<noteq> [] \<and> length m \<le> 4 \<and> (\<forall>c\<in>set m. is_digit ext c)"
proof (induction ext s arbitrary: m rule: extractall.induct)
  case (1 ext)
  then show ?case by simp
next
  case (2 ext c cs)
  show ?case
  proof (cases "c = hash_sign \<and> digit_run ext 4 cs \<noteq> []")
    case True
    then have "extractall ext (c # cs)
        = digit_run ext 4 cs # extractall ext (drop (length (digit_run ext 4 cs)) cs)"
      by simp
    with "2.prems" have "m = digit_run ext 4 cs
        \<or> m \<in> set (extractall ext (drop (length (digit_run ext 4 cs)) cs))"
      by simp
    then show ?thesis
    proof
      assume "m = digit_run ext 4 cs"
      then show ?thesis
        using True digit_run_length[of ext 4 cs] digit_run_digits[of _ ext 4 cs] by auto
    next
      assume "m \<in> set (extractall ext (drop (length (digit_run ext 4 cs)) cs))"
      then show ?thesis using "2.IH"(1)[OF True] by blast
    qed
  next
    case False
    then have "extractall ext (c # cs) = extractall ext cs" by auto
    with "2.prems" have "m \<in> set (extractall ext cs)" by simp
    then show ?thesis using "2.IH"(2)[OF False] by blast
  qed
qed

text \<open>
  Claim C3. A mention is the character \<^verbatim>\<open>#\<close> immediately followed by one to four
  decimal digits, and nothing else is one. The scan is fixed by four cases: the empty
  text has no match; a character other than \<^verbatim>\<open>#\<close> starts no match; a \<^verbatim>\<open>#\<close> that no digit
  follows immediately starts no match; and a run \<open>ds\<close> of one to four digits behind
  \<^verbatim>\<open>#\<close> is one match when it has four digits or is followed by no further digit, the
  scan going on behind it. Every match has between one and four digits, and the digits
  are the ten ASCII digits and the decimal digits of the Unicode table. \<^verbatim>\<open>#3456\<close> gives
  the single mention 3456, \<^verbatim>\<open>#12345\<close> gives only 1234, the trailing \<^verbatim>\<open>5\<close> belonging to
  no match, and digits without \<^verbatim>\<open>#\<close>, or not immediately behind it, give none.
\<close>

theorem mention_pattern_cap:
  "extractall ext [] = [] \<and>
   (c \<noteq> hash_sign \<longrightarrow> extractall ext (c # cs) = extractall ext cs) \<and>
   (cs = [] \<or> \<not> is_digit ext (hd cs) \<longrightarrow> extractall ext (hash_sign # cs) = extractall ext cs) \<and>
   (ds \<noteq> [] \<and> (\<forall>d\<in>set ds. is_digit ext d) \<and> length ds \<le> 4 \<and>
      (length ds = 4 \<or> rest = [] \<or> \<not> is_digit ext (hd rest))
      \<longrightarrow> extractall ext (hash_sign # ds @ rest) = ds # extractall ext rest) \<and>
   (\<forall>m\<in>set (extractall ext s). m \<noteq> [] \<and> length m \<le> 4 \<and> (\<forall>d\<in>set m. is_digit ext d)) \<and>
   (is_digit ext d = ((48 \<le> d \<and> d \<le> 57) \<or> (128 \<le> d \<and> ext d \<noteq> None))) \<and>
   extractall ext (codepoints ''#3456'') = [codepoints ''3456''] \<and>
   mentions ext (codepoints ''#3456'') = [3456] \<and>
   extractall ext (codepoints ''#12345'') = [codepoints ''1234''] \<and>
   mentions ext (codepoints ''#12345'') = [1234] \<and>
   extractall ext (codepoints ''a12'') = [] \<and>
   extractall ext (codepoints ''# 12'') = []"
proof (intro conjI impI)
  assume "cs = [] \<or> \<not> is_digit ext (hd cs)"
  then have "digit_run ext 4 cs = []" by (rule digit_run_none)
  then show "extractall ext (hash_sign # cs) = extractall ext cs" by simp
next
  assume a: "ds \<noteq> [] \<and> (\<forall>d\<in>set ds. is_digit ext d) \<and> length ds \<le> 4 \<and>
      (length ds = 4 \<or> rest = [] \<or> \<not> is_digit ext (hd rest))"
  then have "digit_run ext 4 (ds @ rest) = ds"
    by (intro digit_run_app) auto
  then show "extractall ext (hash_sign # ds @ rest) = ds # extractall ext rest"
    using a by simp
next
  show "\<forall>m\<in>set (extractall ext s). m \<noteq> [] \<and> length m \<le> 4 \<and> (\<forall>d\<in>set m. is_digit ext d)"
    using extractall_shape by blast
next
  show "is_digit ext d = ((48 \<le> d \<and> d \<le> 57) \<or> (128 \<le> d \<and> ext d \<noteq> None))"
    by (rule is_digit_iff)
qed (simp_all add: mention_eval)

theorem mention_pattern_cap_witness:
  "of_char (CHR ''a'') \<noteq> hash_sign \<and>
   extractall unicode_14 (codepoints ''a12'') = extractall unicode_14 (codepoints ''12'') \<and>
   extractall unicode_14 (codepoints ''12'') = [] \<and>
   \<not> is_digit unicode_14 (hd (codepoints '' 12'')) \<and>
   extractall unicode_14 (hash_sign # codepoints '' 12'') = [] \<and>
   codepoints ''1234'' \<noteq> [] \<and> list_all (is_digit unicode_14) (codepoints ''1234'') \<and>
   length (codepoints ''1234'') = 4 \<and>
   extractall unicode_14 (hash_sign # codepoints ''1234'' @ codepoints ''5'') = [codepoints ''1234''] \<and>
   list_all (is_digit unicode_14) [1633, 1634] \<and>
   \<not> is_digit unicode_14 (hd (codepoints '' x'')) \<and>
   extractall unicode_14 (hash_sign # [1633, 1634] @ codepoints '' x'') = [[1633, 1634]] \<and>
   mentions unicode_14 (hash_sign # [1633, 1634] @ codepoints '' x'') = [12] \<and>
   list_all (\<lambda>m. m \<noteq> [] \<and> length m \<le> 4 \<and> list_all (is_digit unicode_14) m)
     (extractall unicode_14 (codepoints ''#12 and #3''))"
proof -
  have e: "extractall unicode_14 (codepoints ''12'') = []"
    "extractall unicode_14 (codepoints '' 12'') = []"
    "extractall unicode_14 (codepoints ''5'') = []"
    "extractall unicode_14 (codepoints '' x'') = []"
    by (simp_all add: mention_eval)
  have d: "list_all (is_digit unicode_14) (codepoints ''1234'')"
    "\<not> is_digit unicode_14 (hd (codepoints '' 12''))"
    "\<not> is_digit unicode_14 (hd (codepoints '' x''))"
    by (simp_all add: mention_eval)
  have u: "list_all (is_digit unicode_14) [1633, 1634]"
    "int_of_digits unicode_14 [1633, 1634] = 12"
    by (simp_all add: mention_eval unicode_14_def nd_zeros_def)
  have 1: "of_char (CHR ''a'') \<noteq> hash_sign"
    by (simp add: hash_sign_def)
  have 2: "extractall unicode_14 (codepoints ''a12'') = extractall unicode_14 (codepoints ''12'')"
    using mention_pattern_cap [of unicode_14 "of_char (CHR ''a'')" "codepoints ''12''"] 1
    by (simp add: codepoints_def)
  have 3: "extractall unicode_14 (hash_sign # codepoints '' 12'') = []"
    using mention_pattern_cap [of unicode_14 _ "codepoints '' 12''"] d(2) e(2) by simp
  have 4: "extractall unicode_14 (hash_sign # codepoints ''1234'' @ codepoints ''5'')
      = [codepoints ''1234'']"
    using mention_pattern_cap [of unicode_14 _ _ "codepoints ''1234''" "codepoints ''5''"] d(1) e(3)
    by (simp add: list_all_iff codepoints_def)
  have 5: "extractall unicode_14 (hash_sign # [1633, 1634] @ codepoints '' x'') = [[1633, 1634]]"
    using mention_pattern_cap [of unicode_14 _ _ "[1633, 1634]" "codepoints '' x''"] u(1) d(3) e(4)
    by (simp add: list_all_iff)
  have 6: "list_all (\<lambda>m. m \<noteq> [] \<and> length m \<le> 4 \<and> list_all (is_digit unicode_14) m)
     (extractall unicode_14 (codepoints ''#12 and #3''))"
  proof -
    from mention_pattern_cap [of unicode_14 0 "[]" "[]" "[]" "codepoints ''#12 and #3''" 0]
    have "\<forall>m\<in>set (extractall unicode_14 (codepoints ''#12 and #3'')).
            m \<noteq> [] \<and> length m \<le> 4 \<and> (\<forall>d\<in>set m. is_digit unicode_14 d)"
      by blast
    then show ?thesis unfolding list_all_iff .
  qed
  have 7: "mentions unicode_14 (hash_sign # [1633, 1634] @ codepoints '' x'') = [12]"
    unfolding mentions_def 5 using u(2) by simp
  from 1 2 3 4 5 6 7 e d u show ?thesis
    by (simp add: codepoints_def)
qed

text \<open>
  Claim C2, as amended. The text \<^verbatim>\<open>Fixes #12 and references #3456, see #12 again\<close> has
  the three mentions 12, 3456 and 12, in this order: the four digits of \<^verbatim>\<open>#3456\<close> are one
  match.
\<close>

theorem mention_example_amended:
  "mentions ext (codepoints ''Fixes #12 and references #3456, see #12 again'') = [12, 3456, 12]"
  by (simp add: mention_eval)

text \<open>The multiset of the mentions of that text is not \<open>{12, 3, 456, 12}\<close>.\<close>

theorem mention_example_counterexample:
  "mset (mentions unicode_14 (codepoints ''Fixes #12 and references #3456, see #12 again''))
     \<noteq> {#12, 3, 456, 12#}"
  by (simp add: mention_eval)

section \<open>Properties of the record classifier\<close>

lemma take_eq_prefix: "(take (length pat) s = pat) = (\<exists>q. s = pat @ q)"
  by (metis append_eq_conv_conj append_take_drop_id)

lemma str_contains_iff: "str_contains s pat = (\<exists>p q. s = p @ pat @ q)"
proof (induction s)
  case Nil
  then show ?case by simp
next
  case (Cons c cs)
  show ?case
  proof
    assume "str_contains (c # cs) pat"
    then consider "take (length pat) (c # cs) = pat" | "str_contains cs pat" by auto
    then show "\<exists>p q. c # cs = p @ pat @ q"
    proof cases
      case 1
      then obtain q where "c # cs = pat @ q" using take_eq_prefix by metis
      then have "c # cs = [] @ pat @ q" by simp
      then show ?thesis by blast
    next
      case 2
      then obtain p q where "cs = p @ pat @ q" using Cons.IH by blast
      then have "c # cs = (c # p) @ pat @ q" by simp
      then show ?thesis by blast
    qed
  next
    assume "\<exists>p q. c # cs = p @ pat @ q"
    then obtain p q where pq: "c # cs = p @ pat @ q" by blast
    show "str_contains (c # cs) pat"
    proof (cases p)
      case Nil
      with pq have "take (length pat) (c # cs) = pat" using take_eq_prefix by (metis append_Nil)
      then show ?thesis by simp
    next
      case (Cons a p')
      with pq have "cs = p' @ pat @ q" by simp
      then have "str_contains cs pat" using Cons.IH by blast
      then show ?thesis by simp
    qed
  qed
qed

lemma select_rows_Inr:
  "(select_rows m df = Inr out) = ((\<forall>x\<in>set df. m (snd x) \<noteq> None) \<and> out = filter (\<lambda>x. m (snd x) = Some True) df)"
  unfolding select_rows_def list_ex_iff split_def by auto

lemma select_rows_Inl:
  "(select_rows m df = Inl e) = ((\<exists>x\<in>set df. m (snd x) = None) \<and> e = MaskError)"
  unfolding select_rows_def list_ex_iff split_def by auto

lemma classify_Inr:
  "(classify df = Inr c) =
     ((\<forall>x\<in>set df. closed_at (snd x) \<noteq> None \<longrightarrow> html_url (snd x) \<noteq> None) \<and>
      c = \<lparr> issues = filter (\<lambda>x. closed_at (snd x) \<noteq> None \<and> pr_filter (snd x) = Some False \<and> comment_created_at (snd x) = None) df,
            issue_comments = filter (\<lambda>x. closed_at (snd x) \<noteq> None \<and> pr_filter (snd x) = Some False \<and> comment_created_at (snd x) \<noteq> None) df,
            prs = filter (\<lambda>x. closed_at (snd x) \<noteq> None \<and> pr_filter (snd x) = Some True \<and> comment_created_at (snd x) = None) df,
            pr_comments = filter (\<lambda>x. closed_at (snd x) \<noteq> None \<and> pr_filter (snd x) = Some True \<and> comment_created_at (snd x) \<noteq> None) df \<rparr>)"
proof -
  let ?closed = "filter (\<lambda>x. closed_filter (snd x)) df"
  have a: "(\<forall>x\<in>set ?closed. pr_filter (snd x) \<noteq> None)
         = (\<forall>x\<in>set df. closed_at (snd x) \<noteq> None \<longrightarrow> html_url (snd x) \<noteq> None)"
    by (auto simp: closed_filter_def pr_filter_def)
  show ?thesis
  proof (cases "select_rows pr_filter ?closed")
    case (Inl e)
    then have "\<not> (\<forall>x\<in>set ?closed. pr_filter (snd x) \<noteq> None)"
      unfolding select_rows_Inl by blast
    with Inl a show ?thesis
      unfolding classify_def Let_def split_def by simp
  next
    case (Inr out)
    then have 1: "\<forall>x\<in>set ?closed. pr_filter (snd x) \<noteq> None"
      and 2: "out = filter (\<lambda>x. pr_filter (snd x) = Some True) ?closed"
      unfolding select_rows_Inr by blast+
    have "classify df = Inr \<lparr> issues = filter (\<lambda>x. comment_filter (snd x)) (select_not pr_filter ?closed),
                issue_comments = filter (\<lambda>x. \<not> comment_filter (snd x)) (select_not pr_filter ?closed),
                prs = filter (\<lambda>x. comment_filter (snd x)) out,
                pr_comments = filter (\<lambda>x. \<not> comment_filter (snd x)) out \<rparr>"
      using Inr unfolding classify_def Let_def split_def by simp
    also have "\<dots> = Inr \<lparr> issues = filter (\<lambda>x. closed_at (snd x) \<noteq> None \<and> pr_filter (snd x) = Some False \<and> comment_created_at (snd x) = None) df,
            issue_comments = filter (\<lambda>x. closed_at (snd x) \<noteq> None \<and> pr_filter (snd x) = Some False \<and> comment_created_at (snd x) \<noteq> None) df,
            prs = filter (\<lambda>x. closed_at (snd x) \<noteq> None \<and> pr_filter (snd x) = Some True \<and> comment_created_at (snd x) = None) df,
            pr_comments = filter (\<lambda>x. closed_at (snd x) \<noteq> None \<and> pr_filter (snd x) = Some True \<and> comment_created_at (snd x) \<noteq> None) df \<rparr>"
      unfolding 2 select_not_def split_def closed_filter_def comment_filter_def
      by (simp add: conj_ac cong: filter_cong)
    finally show ?thesis using 1 a by auto
  qed
qed

lemma classify_Inl:
  "(classify df = Inl e) = ((\<exists>x\<in>set df. closed_at (snd x) \<noteq> None \<and> html_url (snd x) = None) \<and> e = MaskError)"
proof -
  let ?closed = "filter (\<lambda>x. closed_filter (snd x)) df"
  have a: "(\<exists>x\<in>set ?closed. pr_filter (snd x) = None)
         = (\<exists>x\<in>set df. closed_at (snd x) \<noteq> None \<and> html_url (snd x) = None)"
    by (simp add: closed_filter_def pr_filter_def Bex_def)
  show ?thesis
  proof (cases "select_rows pr_filter ?closed")
    case (Inl e')
    then have 1: "classify df = Inl e'"
      unfolding classify_def Let_def split_def by simp
    from Inl have "(\<exists>x\<in>set ?closed. pr_filter (snd x) = None) \<and> e' = MaskError"
      unfolding select_rows_Inl .
    with 1 a show ?thesis by auto
  next
    case (Inr out)
    then have "\<not> (\<exists>x\<in>set ?closed. pr_filter (snd x) = None)"
      unfolding select_rows_Inr by blast
    with Inr a show ?thesis unfolding classify_def Let_def split_def by simp
  qed
qed

lemma pr_filter_Some:
  "(pr_filter r = Some b) = (\<exists>u. html_url r = Some u \<and> b = (\<exists>p q. u = p @ ''pull'' @ q))"
  unfolding pr_filter_def by (cases "html_url r") (auto simp: str_contains_iff)

lemma distinct_read_csv: "distinct (read_csv rows)"
  unfolding read_csv_def by (simp add: distinct_zipI1)

lemma length_filter_split4:
  "length (filter (\<lambda>x. P x \<and> \<not> A x \<and> \<not> B x) xs) + length (filter (\<lambda>x. P x \<and> \<not> A x \<and> B x) xs)
   + length (filter (\<lambda>x. P x \<and> A x \<and> \<not> B x) xs) + length (filter (\<lambda>x. P x \<and> A x \<and> B x) xs)
   = length (filter P xs)"
  by (induction xs) auto

lemma read_csv_example:
  "read_csv example_export =
     [(0, bug_issue_99), (1, pr_100), (2, pr_101), (3, pr_102), (4, pr_102_comment),
      (5, open_issue_103), (6, issue_99_comment), (7, bug_issue_12), (8, issue_97)]"
  unfolding read_csv_def example_export_def by (simp add: upt_rec)

lemma classify_example: "classify (read_csv example_export) = Inr example_classified"
  unfolding read_csv_example classify_def example_classified_def
  by (simp add: select_rows_def select_not_def closed_filter_def pr_filter_def comment_filter_def
      bug_issue_99_def pr_100_def pr_101_def pr_102_def pr_102_comment_def open_issue_103_def
      issue_99_comment_def bug_issue_12_def issue_97_def)

lemma classify_partition_Inr:
  assumes c: "classify (read_csv rows) = Inr c"
  shows "distinct (issues c @ issue_comments c @ prs c @ pr_comments c)"
    and "set (issues c) \<union> set (issue_comments c) \<union> set (prs c) \<union> set (pr_comments c)
        = {x \<in> set (read_csv rows). closed_at (snd x) \<noteq> None}"
    and "length (issues c) + length (issue_comments c) + length (prs c) + length (pr_comments c)
        = length (filter (\<lambda>(i, r). closed_at r \<noteq> None) (read_csv rows))"
proof -
  let ?df = "read_csv rows"
  have some: "\<forall>x\<in>set ?df. closed_at (snd x) \<noteq> None \<longrightarrow> pr_filter (snd x) \<noteq> None"
    using c unfolding classify_Inr pr_filter_def by auto
  have tf: "\<And>x. x \<in> set ?df \<Longrightarrow> closed_at (snd x) \<noteq> None \<Longrightarrow>
      (pr_filter (snd x) = Some False) = (\<not> pr_filter (snd x) = Some True)"
    using some by (metis option.inject option.exhaust)
  show "distinct (issues c @ issue_comments c @ prs c @ pr_comments c)"
    using c distinct_read_csv[of rows] unfolding classify_Inr by auto
  show "set (issues c) \<union> set (issue_comments c) \<union> set (prs c) \<union> set (pr_comments c)
        = {x \<in> set ?df. closed_at (snd x) \<noteq> None}"
    using c tf unfolding classify_Inr by auto
  have "length (issues c) + length (issue_comments c) + length (prs c) + length (pr_comments c)
      = length (filter (\<lambda>x. closed_at (snd x) \<noteq> None \<and> \<not> pr_filter (snd x) = Some True \<and> \<not> comment_created_at (snd x) \<noteq> None) ?df)
      + length (filter (\<lambda>x. closed_at (snd x) \<noteq> None \<and> \<not> pr_filter (snd x) = Some True \<and> comment_created_at (snd x) \<noteq> None) ?df)
      + length (filter (\<lambda>x. closed_at (snd x) \<noteq> None \<and> pr_filter (snd x) = Some True \<and> \<not> comment_created_at (snd x) \<noteq> None) ?df)
      + length (filter (\<lambda>x. closed_at (snd x) \<noteq> None \<and> pr_filter (snd x) = Some True \<and> comment_created_at (snd x) \<noteq> None) ?df)"
  proof -
    have 1: "issues c = filter (\<lambda>x. closed_at (snd x) \<noteq> None \<and> \<not> pr_filter (snd x) = Some True \<and> \<not> comment_created_at (snd x) \<noteq> None) ?df"
      using c tf unfolding classify_Inr by (auto intro!: filter_cong)
    have 2: "issue_comments c = filter (\<lambda>x. closed_at (snd x) \<noteq> None \<and> \<not> pr_filter (snd x) = Some True \<and> comment_created_at (snd x) \<noteq> None) ?df"
      using c tf unfolding classify_Inr by (auto intro!: filter_cong)
    have 3: "prs c = filter (\<lambda>x. closed_at (snd x) \<noteq> None \<and> pr_filter (snd x) = Some True \<and> \<not> comment_created_at (snd x) \<noteq> None) ?df"
      using c unfolding classify_Inr by simp
    have 4: "pr_comments c = filter (\<lambda>x. closed_at (snd x) \<noteq> None \<and> pr_filter (snd x) = Some True \<and> comment_created_at (snd x) \<noteq> None) ?df"
      using c unfolding classify_Inr by simp
    show ?thesis unfolding 1 2 3 4 ..
  qed
  also have "\<dots> = length (filter (\<lambda>x. closed_at (snd x) \<noteq> None) ?df)"
    by (rule length_filter_split4)
  finally show "length (issues c) + length (issue_comments c) + length (prs c) + length (pr_comments c)
        = length (filter (\<lambda>(i, r). closed_at r \<noteq> None) ?df)"
    by (simp add: split_def)
qed

lemma distinct_append_disjoint:
  "distinct (a @ b @ c @ d) \<Longrightarrow>
     set a \<inter> set b = {} \<and> set a \<inter> set c = {} \<and> set a \<inter> set d = {} \<and>
     set b \<inter> set c = {} \<and> set b \<inter> set d = {} \<and> set c \<inter> set d = {}"
  by auto

text \<open>
  Claim C4, as amended. For every export in which every closed row has an
  \<^verbatim>\<open>issue.html_url\<close>, the classifier returns four tables that are pairwise disjoint and
  hold every closed row exactly once: no row occurs twice in them, together they hold
  exactly the closed rows, and their sizes add up to the number of closed rows. For an
  export in which some closed row has no \<^verbatim>\<open>issue.html_url\<close> the classifier fails with
  the mask error and returns no tables.
\<close>

theorem classifier_partition:
  "((\<forall>r\<in>set rows. closed_at r \<noteq> None \<longrightarrow> html_url r \<noteq> None) \<longrightarrow>
      (\<exists>c. classify (read_csv rows) = Inr c \<and>
         distinct (issues c @ issue_comments c @ prs c @ pr_comments c) \<and>
         set (issues c) \<inter> set (issue_comments c) = {} \<and>
         set (issues c) \<inter> set (prs c) = {} \<and>
         set (issues c) \<inter> set (pr_comments c) = {} \<and>
         set (issue_comments c) \<inter> set (prs c) = {} \<and>
         set (issue_comments c) \<inter> set (pr_comments c) = {} \<and>
         set (prs c) \<inter> set (pr_comments c) = {} \<and>
         set (issues c) \<union> set (issue_comments c) \<union> set (prs c) \<union> set (pr_comments c)
           = {x \<in> set (read_csv rows). closed_at (snd x) \<noteq> None} \<and>
         length (issues c) + length (issue_comments c) + length (prs c) + length (pr_comments c)
           = length (filter (\<lambda>(i, r). closed_at r \<noteq> None) (read_csv rows)))) \<and>
   ((\<exists>r\<in>set rows. closed_at r \<noteq> None \<and> html_url r = None) \<longrightarrow>
      classify (read_csv rows) = Inl MaskError)"
proof (intro conjI impI)
  assume "\<forall>r\<in>set rows. closed_at r \<noteq> None \<longrightarrow> html_url r \<noteq> None"
  then have "\<forall>x\<in>set (read_csv rows). closed_at (snd x) \<noteq> None \<longrightarrow> html_url (snd x) \<noteq> None"
    unfolding read_csv_def by (auto dest: set_zip_rightD)
  then obtain c where c: "classify (read_csv rows) = Inr c"
    unfolding classify_Inr by blast
  note p = classify_partition_Inr [OF c]
  from c p(1) distinct_append_disjoint [OF p(1)] p(2) p(3)
  show "\<exists>c. classify (read_csv rows) = Inr c \<and>
         distinct (issues c @ issue_comments c @ prs c @ pr_comments c) \<and>
         set (issues c) \<inter> set (issue_comments c) = {} \<and>
         set (issues c) \<inter> set (prs c) = {} \<and>
         set (issues c) \<inter> set (pr_comments c) = {} \<and>
         set (issue_comments c) \<inter> set (prs c) = {} \<and>
         set (issue_comments c) \<inter> set (pr_comments c) = {} \<and>
         set (prs c) \<inter> set (pr_comments c) = {} \<and>
         set (issues c) \<union> set (issue_comments c) \<union> set (prs c) \<union> set (pr_comments c)
           = {x \<in> set (read_csv rows). closed_at (snd x) \<noteq> None} \<and>
         length (issues c) + length (issue_comments c) + length (prs c) + length (pr_comments c)
           = length (filter (\<lambda>(i, r). closed_at r \<noteq> None) (read_csv rows))"
    by blast
next
  assume "\<exists>r\<in>set rows. closed_at r \<noteq> None \<and> html_url r = None"
  then obtain r where r: "r \<in> set rows" "closed_at r \<noteq> None" "html_url r = None"
    by blast
  from r(1) obtain i where "i < length rows" "rows ! i = r"
    by (auto simp: in_set_conv_nth)
  then have "[0..<length rows] ! i = i \<and> rows ! i = r \<and> i < length [0..<length rows]
      \<and> i < length rows"
    by simp
  then have "(i, r) \<in> set (read_csv rows)"
    unfolding read_csv_def in_set_zip by (intro exI [of _ i]) simp
  with r(2,3) have "\<exists>x\<in>set (read_csv rows). closed_at (snd x) \<noteq> None \<and> html_url (snd x) = None"
    by force
  then show "classify (read_csv rows) = Inl MaskError"
    unfolding classify_Inl by simp
qed

theorem classifier_partition_witness:
  "list_all (\<lambda>r. closed_at r = None \<or> html_url r \<noteq> None) example_export \<and>
   classify (read_csv example_export) = Inr example_classified \<and>
   distinct (issues example_classified @ issue_comments example_classified @
             prs example_classified @ pr_comments example_classified) \<and>
   length (issues example_classified) + length (issue_comments example_classified) +
     length (prs example_classified) + length (pr_comments example_classified) = 8 \<and>
   length (filter (\<lambda>(i, r). closed_at r \<noteq> None) (read_csv example_export)) = 8 \<and>
   closed_at no_html_url_row \<noteq> None \<and> html_url no_html_url_row = None \<and>
   classify (read_csv [bug_issue_99, no_html_url_row]) = Inl MaskError"
proof -
  have u: "list_all (\<lambda>r. closed_at r = None \<or> html_url r \<noteq> None) example_export"
    by (simp add: example_export_def bug_issue_99_def pr_100_def pr_101_def pr_102_def
        pr_102_comment_def open_issue_103_def issue_99_comment_def bug_issue_12_def issue_97_def)
  then have u': "\<forall>r\<in>set example_export. closed_at r \<noteq> None \<longrightarrow> html_url r \<noteq> None"
    unfolding list_all_iff by auto
  have c: "classify (read_csv example_export) = Inr example_classified"
    by (rule classify_example)
  from classifier_partition [of example_export] u' obtain c' where
    c': "classify (read_csv example_export) = Inr c'"
    and d': "distinct (issues c' @ issue_comments c' @ prs c' @ pr_comments c')"
    and l': "length (issues c') + length (issue_comments c') + length (prs c') + length (pr_comments c')
       = length (filter (\<lambda>(i, r). closed_at r \<noteq> None) (read_csv example_export))"
    by blast
  from c c' have e: "c' = example_classified" by simp
  have n: "length (issues example_classified) + length (issue_comments example_classified) +
       length (prs example_classified) + length (pr_comments example_classified) = 8"
    by (simp add: example_classified_def)
  have m: "closed_at no_html_url_row \<noteq> None" "html_url no_html_url_row = None"
    by (simp_all add: no_html_url_row_def malformed_row_def)
  then have "\<exists>r\<in>set [bug_issue_99, no_html_url_row]. closed_at r \<noteq> None \<and> html_url r = None"
    by simp
  with classifier_partition [of "[bug_issue_99, no_html_url_row]"]
  have f: "classify (read_csv [bug_issue_99, no_html_url_row]) = Inl MaskError"
    by blast
  from u c d' l' e n m f show ?thesis by simp
qed

text \<open>
  An export with two closed rows, one of them without \<^verbatim>\<open>issue.html_url\<close>: the classifier
  fails, so neither closed row is in any table.
\<close>

theorem partition_missing_url_counterexample:
  "closed_at malformed_row \<noteq> None \<and> closed_at no_html_url_row \<noteq> None \<and>
   html_url no_html_url_row = None \<and>
   classify (read_csv [malformed_row, no_html_url_row]) = Inl MaskError"
  by (simp add: read_csv_def classify_def select_rows_def closed_filter_def pr_filter_def
      no_html_url_row_def malformed_row_def upt_rec)

text \<open>
  Claim C7. A row whose \<^verbatim>\<open>issue.closed_at\<close> is missing is in none of the four tables
  of the classifier.
\<close>

theorem open_record_excluded:
  assumes "classify df = Inr c" and "closed_at r = None"
  shows "(i, r) \<notin> set (issues c) \<and> (i, r) \<notin> set (issue_comments c) \<and>
         (i, r) \<notin> set (prs c) \<and> (i, r) \<notin> set (pr_comments c)"
  using assms unfolding classify_Inr by simp

theorem open_record_excluded_witness:
  "classify (read_csv example_export) = Inr example_classified \<and>
   closed_at open_issue_103 = None \<and>
   (5, open_issue_103) \<in> set (read_csv example_export) \<and>
   (5, open_issue_103) \<notin> set (issues example_classified) \<and>
   (5, open_issue_103) \<notin> set (issue_comments example_classified) \<and>
   (5, open_issue_103) \<notin> set (prs example_classified) \<and>
   (5, open_issue_103) \<notin> set (pr_comments example_classified)"
proof -
  have c: "classify (read_csv example_export) = Inr example_classified"
    by (rule classify_example)
  have o: "closed_at open_issue_103 = None"
    by (simp add: open_issue_103_def)
  have m: "(5, open_issue_103) \<in> set (read_csv example_export)"
    by (simp add: read_csv_example)
  from open_record_excluded [OF c o, of 5] c o m show ?thesis by simp
qed



text \<open>
  Claim C6, as amended. The classifier rejects no row for the shape of its
  \<^verbatim>\<open>issue.html_url\<close>: a closed row whose url is a text without the letters \<^verbatim>\<open>pull\<close>, so
  also one with no recognizable issue or pull path, is placed in Issues or
  IssueComments. The classification fails exactly when some closed row has no
  \<^verbatim>\<open>issue.html_url\<close> at all, and then with the mask error for the whole table.
\<close>

theorem classifier_rejects_only_missing_url:
  "((classify df = Inl e) = ((\<exists>x\<in>set df. closed_at (snd x) \<noteq> None \<and> html_url (snd x) = None) \<and> e = MaskError)) \<and>
   (classify df = Inr c \<and> (i, r) \<in> set df \<and> closed_at r \<noteq> None \<and> html_url r = Some u \<and>
      \<not> (\<exists>p q. u = p @ ''pull'' @ q)
      \<longrightarrow> (i, r) \<in> set (issues c) \<union> set (issue_comments c))"
proof (intro conjI impI)
  show "(classify df = Inl e) = ((\<exists>x\<in>set df. closed_at (snd x) \<noteq> None \<and> html_url (snd x) = None) \<and> e = MaskError)"
    by (rule classify_Inl)
next
  assume a: "classify df = Inr c \<and> (i, r) \<in> set df \<and> closed_at r \<noteq> None \<and> html_url r = Some u \<and>
      \<not> (\<exists>p q. u = p @ ''pull'' @ q)"
  then have "pr_filter r = Some False"
    by (simp add: pr_filter_Some)
  with a show "(i, r) \<in> set (issues c) \<union> set (issue_comments c)"
    unfolding classify_Inr by auto
qed

theorem classifier_rejects_only_missing_url_witness:
  "classify (read_csv [malformed_row])
     = Inr \<lparr> issues = [(0, malformed_row)], issue_comments = [], prs = [], pr_comments = [] \<rparr> \<and>
   (0, malformed_row) \<in> set (read_csv [malformed_row]) \<and>
   closed_at malformed_row \<noteq> None \<and>
   html_url malformed_row = Some ''https://github.com/llvm/circt/wiki/104'' \<and>
   \<not> str_contains ''https://github.com/llvm/circt/wiki/104'' ''pull'' \<and>
   (0, malformed_row) \<in> set (issues \<lparr> issues = [(0, malformed_row)], issue_comments = [],
       prs = [], pr_comments = [] \<rparr>) \<and>
   classify (read_csv [malformed_row, no_html_url_row]) = Inl MaskError"
proof -
  let ?c = "\<lparr> issues = [(0, malformed_row)], issue_comments = [], prs = [], pr_comments = [] \<rparr>"
  have c: "classify (read_csv [malformed_row]) = Inr ?c"
    by (simp add: read_csv_def classify_def select_rows_def select_not_def closed_filter_def
        pr_filter_def comment_filter_def malformed_row_def)
  have m: "(0, malformed_row) \<in> set (read_csv [malformed_row])"
    by (simp add: read_csv_def)
  have o: "closed_at malformed_row \<noteq> None"
    by (simp add: malformed_row_def)
  have u: "html_url malformed_row = Some ''https://github.com/llvm/circt/wiki/104''"
    by (simp add: malformed_row_def)
  have n: "\<not> str_contains ''https://github.com/llvm/circt/wiki/104'' ''pull''"
    by simp
  then have n': "\<not> (\<exists>p q. ''https://github.com/llvm/circt/wiki/104'' = p @ ''pull'' @ q)"
    unfolding str_contains_iff .
  from classifier_rejects_only_missing_url
    [of "read_csv [malformed_row]" MaskError ?c 0 malformed_row "''https://github.com/llvm/circt/wiki/104''"]
    c m o u n'
  have 1: "(0, malformed_row) \<in> set (issues ?c) \<union> set (issue_comments ?c)"
    by blast
  have "\<exists>x\<in>set (read_csv [malformed_row, no_html_url_row]).
          closed_at (snd x) \<noteq> None \<and> html_url (snd x) = None"
    by (simp add: read_csv_def no_html_url_row_def malformed_row_def upt_rec)
  with classifier_rejects_only_missing_url
    [of "read_csv [malformed_row, no_html_url_row]" MaskError ?c 0 malformed_row
        "''https://github.com/llvm/circt/wiki/104''"]
  have 2: "classify (read_csv [malformed_row, no_html_url_row]) = Inl MaskError"
    by blast
  from c m o u n 1 2 show ?thesis by simp
qed

text \<open>
  A closed row whose url has neither \<^verbatim>\<open>/issues/\<close> nor \<^verbatim>\<open>/pull/\<close> is not rejected: the
  classifier returns, with the row among the issues.
\<close>

theorem malformed_url_counterexample:
  "closed_at malformed_row = Some ''2022-03-05T10:00:00Z'' \<and>
   html_url malformed_row = Some ''https://github.com/llvm/circt/wiki/104'' \<and>
   \<not> str_contains ''https://github.com/llvm/circt/wiki/104'' ''/issues/'' \<and>
   \<not> str_contains ''https://github.com/llvm/circt/wiki/104'' ''/pull/'' \<and>
   classify (read_csv [malformed_row])
     = Inr \<lparr> issues = [(0, malformed_row)], issue_comments = [], prs = [], pr_comments = [] \<rparr>"
  by (simp add: read_csv_def classify_def select_rows_def select_not_def closed_filter_def
      pr_filter_def comment_filter_def malformed_row_def)

section \<open>Properties of the label predicate\<close>

lemma bind_err_Inr: "(bind_err m f = Inr y) = (\<exists>x. m = Inr x \<and> f x = Inr y)"
  unfolding bind_err_def by (cases m) auto

lemma bind_err_Inl: "(bind_err m f = Inl e) = (m = Inl e \<or> (\<exists>x. m = Inr x \<and> f x = Inl e))"
  unfolding bind_err_def by (cases m) auto

lemma bind_err_simps [simp]: "bind_err (Inl e) f = Inl e" "bind_err (Inr x) f = f x"
  unfolding bind_err_def by simp_all

lemma getitem_name_Inr:
  "(getitem_name l = Inr v) = (\<exists>kvs. l = JObj kvs \<and> map_of kvs ''name'' = Some v)"
  by (cases l) (auto split: option.splits)

lemma has_label_loop_labels:
  assumes "\<forall>l\<in>set ls. \<exists>v. getitem_name l = Inr v"
  shows "has_label_loop ls n = Inr (\<exists>l\<in>set ls. getitem_name l = Inr n)"
  using assms by (induction ls) auto

lemma has_label_loop_hit:
  assumes "\<forall>l\<in>set pre. \<exists>v. getitem_name l = Inr v \<and> v \<noteq> n" and "getitem_name hit = Inr n"
  shows "has_label_loop (pre @ hit # rest) n = Inr True"
  using assms by (induction pre) auto

lemma has_label_loop_bad:
  assumes "\<forall>l\<in>set pre. \<exists>v. getitem_name l = Inr v \<and> v \<noteq> n" and "getitem_name bad = Inl e"
  shows "has_label_loop (pre @ bad # rest) n = Inl e"
  using assms by (induction pre) auto

lemma has_label_decoded:
  "loads s = Inr j \<Longrightarrow> has_label loads (Some s) n = bind_err (iter j) (\<lambda>ls. has_label_loop ls n)"
  unfolding has_label_def json_loads_def by simp

lemma example_decoder_values:
  "example_decoder labels_bug_firrtl
     = Inr (JArr [JObj [(''name'', JStr ''bug'')], JObj [(''name'', JStr ''FIRRTL'')]])"
  "example_decoder labels_bug = Inr (JArr [JObj [(''name'', JStr ''bug'')]])"
  "example_decoder labels_enhancement = Inr (JArr [JObj [(''name'', JStr ''enhancement'')]])"
  "example_decoder labels_bug_then_number = Inr (JArr [JObj [(''name'', JStr ''bug'')], JScalar 7])"
  "example_decoder ''{}'' = Inr (JObj [])"
  "example_decoder ''not json'' = Inl DecodeError"
  by (simp_all add: example_decoder_def table_decoder_def labels_bug_firrtl_def labels_bug_def
      labels_enhancement_def labels_bug_then_number_def)

lemma represents_str: "represents v st a \<Longrightarrow> (st a = OStr n) = (v = JStr n)"
  by (cases v) (auto split: obj.splits)

lemma members_lookup:
  "list_all2 (\<lambda>(k, r) (k', v). k = k' \<and> r st v) (map (map_prod id represents) kvs) members \<Longrightarrow>
     (case map_of kvs key of
        None \<Rightarrow> map_of members key = None
      | Some j \<Rightarrow> \<exists>v. map_of members key = Some v \<and> represents j st v)"
proof (induction kvs arbitrary: members)
  case Nil
  then show ?case by simp
next
  case (Cons kv kvs)
  obtain k j where kv: "kv = (k, j)" by (cases kv)
  from Cons.prems kv have "\<exists>v rest. members = (k, v) # rest \<and> represents j st v \<and>
      list_all2 (\<lambda>(k, r) (k', v). k = k' \<and> r st v) (map (map_prod id represents) kvs) rest"
    by (cases members) (auto simp: id_def)
  then obtain v rest where m: "members = (k, v) # rest" and r: "represents j st v"
    and t: "list_all2 (\<lambda>(k, r) (k', v). k = k' \<and> r st v) (map (map_prod id represents) kvs) rest"
    by blast
  show ?case
  proof (cases "k = key")
    case True
    with kv m r show ?thesis by simp
  next
    case False
    with kv m Cons.IH [OF t] show ?thesis by (auto split: option.splits)
  qed
qed

lemma getitem_name_represented:
  assumes "represents j st a"
  shows "case getitem_name j of
           Inl e \<Rightarrow> getitem_name_obj st (At a) = Inl e
         | Inr v \<Rightarrow> \<exists>a'. getitem_name_obj st (At a) = Inr a' \<and> represents v st a'"
proof (cases j)
  case (JObj kvs)
  with assms obtain members where m: "st a = ODict members"
    and l: "list_all2 (\<lambda>(k, r) (k', v). k = k' \<and> r st v) (map (map_prod id represents) kvs) members"
    by (auto split: obj.splits)
  from members_lookup [OF l, of "''name''"] m JObj show ?thesis
    by (auto split: option.splits)
qed (use assms in \<open>auto split: obj.splits\<close>)

lemma has_label_loop_elements:
  "list_all2 (\<lambda>r e. r st e) (map represents js) elems \<Longrightarrow>
     has_label_loop_obj st (map At elems) n = has_label_loop js (JStr n)"
proof (induction js arbitrary: elems)
  case Nil
  then show ?case by simp
next
  case (Cons j js)
  from Cons.prems obtain e rest where el: "elems = e # rest" and r: "represents j st e"
    and t: "list_all2 (\<lambda>r e. r st e) (map represents js) rest"
    by (cases elems) auto
  note ih = Cons.IH [OF t]
  show ?case
  proof (cases "getitem_name j")
    case (Inl err)
    with getitem_name_represented [OF r] have "getitem_name_obj st (At e) = Inl err" by simp
    with Inl el show ?thesis by simp
  next
    case (Inr v)
    with getitem_name_represented [OF r] obtain a' where g: "getitem_name_obj st (At e) = Inr a'"
      and v: "represents v st a'" by auto
    from represents_str [OF v] have "(st a' = OStr n) = (v = JStr n)" .
    with Inr g el ih show ?thesis by simp
  qed
qed

lemma has_label_loop_texts:
  "has_label_loop_obj st (map Text ks) n = has_label_loop (map JStr ks) (JStr n)"
  by (cases ks) simp_all

lemma has_label_obj_value:
  assumes "represents j st a"
  shows "has_label_obj st a n = bind_err (iter j) (\<lambda>ls. has_label_loop ls (JStr n))"
proof (cases j)
  case (JScalar x)
  with assms show ?thesis by (simp add: has_label_obj_def)
next
  case (JStr s)
  with assms have "st a = OStr s" by simp
  then have "has_label_obj st a n = has_label_loop_obj st (map Text (map (\<lambda>c. [c]) s)) n"
    by (simp add: has_label_obj_def comp_def)
  also have "\<dots> = has_label_loop (map JStr (map (\<lambda>c. [c]) s)) (JStr n)"
    by (rule has_label_loop_texts)
  finally show ?thesis using JStr by (simp add: comp_def)
next
  case (JArr js)
  with assms obtain elems where e: "st a = OList elems"
    and l: "list_all2 (\<lambda>r e. r st e) (map represents js) elems"
    by (auto split: obj.splits)
  from has_label_loop_elements [OF l] e JArr show ?thesis
    by (simp add: has_label_obj_def)
next
  case (JObj kvs)
  with assms obtain members where m: "st a = ODict members"
    and l: "list_all2 (\<lambda>(k, r) (k', v). k = k' \<and> r st v) (map (map_prod id represents) kvs) members"
    by (auto split: obj.splits)
  from l have k: "map fst members = map fst kvs"
    by (induction kvs arbitrary: members) (auto simp: list_all2_Cons1)
  have "has_label_obj st a n = has_label_loop_obj st (map Text (map fst members)) n"
    using m by (simp add: has_label_obj_def comp_def split_def)
  also have "\<dots> = has_label_loop (map JStr (map fst kvs)) (JStr n)"
    unfolding k by (rule has_label_loop_texts)
  finally show ?thesis using JObj by (simp add: comp_def split_def)
qed

text \<open>
  Claim C9. Two objects that decode the same label text, as two calls of
  \<^verbatim>\<open>json.loads\<close> on it return them, give the same result of \<^verbatim>\<open>has_label\<close> for every
  label name: the same truth value or the same error. The loop reads the objects only
  by iteration, by the subscript \<^verbatim>\<open>"name"\<close> and by \<^verbatim>\<open>==\<close> on the characters of the name,
  never by their addresses, and its result is that of \<open>has_label\<close> on the decoded value.
\<close>

theorem has_label_redecoding:
  "loads s = Inr j \<and> represents j st first \<and> represents j st second \<longrightarrow>
     has_label_obj st first n = has_label_obj st second n \<and>
     has_label_obj st first n = has_label loads (Some s) (JStr n)"
proof
  assume a: "loads s = Inr j \<and> represents j st first \<and> represents j st second"
  then have "has_label loads (Some s) (JStr n) = bind_err (iter j) (\<lambda>ls. has_label_loop ls (JStr n))"
    by (simp add: has_label_def json_loads_def)
  with a has_label_obj_value [of j st first n] has_label_obj_value [of j st second n]
  show "has_label_obj st first n = has_label_obj st second n \<and>
     has_label_obj st first n = has_label loads (Some s) (JStr n)"
    by simp
qed

theorem has_label_redecoding_witness:
  "example_decoder labels_bug_firrtl
     = Inr (JArr [JObj [(''name'', JStr ''bug'')], JObj [(''name'', JStr ''FIRRTL'')]]) \<and>
   represents (JArr [JObj [(''name'', JStr ''bug'')], JObj [(''name'', JStr ''FIRRTL'')]])
     two_decodings 0 \<and>
   represents (JArr [JObj [(''name'', JStr ''bug'')], JObj [(''name'', JStr ''FIRRTL'')]])
     two_decodings 10 \<and>
   has_label_obj two_decodings 0 ''FIRRTL'' = Inr True \<and>
   has_label_obj two_decodings 10 ''FIRRTL'' = Inr True \<and>
   has_label example_decoder (Some labels_bug_firrtl) (JStr ''FIRRTL'') = Inr True \<and>
   has_label_obj two_decodings 0 ''firrtl'' = Inr False \<and>
   has_label_obj two_decodings 10 ''firrtl'' = Inr False"
proof -
  let ?j = "JArr [JObj [(''name'', JStr ''bug'')], JObj [(''name'', JStr ''FIRRTL'')]] :: int json"
  have d: "example_decoder labels_bug_firrtl = Inr ?j"
    by (rule example_decoder_values(1))
  have r: "represents ?j two_decodings 0" "represents ?j two_decodings 10"
    by (simp_all add: two_decodings_def)
  have v: "has_label_obj two_decodings 0 ''FIRRTL'' = Inr True"
    "has_label_obj two_decodings 0 ''firrtl'' = Inr False"
    by (simp_all add: has_label_obj_def two_decodings_def)
  from has_label_redecoding [of example_decoder labels_bug_firrtl ?j two_decodings 0 10 "''FIRRTL''"]
    d r
  have "has_label_obj two_decodings 0 ''FIRRTL'' = has_label_obj two_decodings 10 ''FIRRTL''"
    and "has_label_obj two_decodings 0 ''FIRRTL''
           = has_label example_decoder (Some labels_bug_firrtl) (JStr ''FIRRTL'')"
    by blast+
  with v(1) have 1: "has_label_obj two_decodings 10 ''FIRRTL'' = Inr True"
    "has_label example_decoder (Some labels_bug_firrtl) (JStr ''FIRRTL'') = Inr True"
    by simp_all
  from has_label_redecoding [of example_decoder labels_bug_firrtl ?j two_decodings 0 10 "''firrtl''"]
    d r
  have "has_label_obj two_decodings 0 ''firrtl'' = has_label_obj two_decodings 10 ''firrtl''"
    by blast
  with v(2) have 2: "has_label_obj two_decodings 10 ''firrtl'' = Inr False"
    by simp
  from d r v 1 2 show ?thesis by simp
qed

text \<open>
  Claim C5, as amended. For a label cell that decodes to a sequence of label objects,
  \<^verbatim>\<open>has_label\<close> is true exactly when some element's \<^verbatim>\<open>name\<close> is the given string, compared
  as it is written. An error of the decoder (and the type error for a missing cell)
  is passed on, not swallowed. For a decoded value that is not a sequence of label
  objects, an error is raised only where the scan meets the fault before a match: for a
  scalar, and for an element without a \<^verbatim>\<open>name\<close> that no matching label precedes. Behind
  the first match nothing is examined, and the empty object and the empty string give
  false.
\<close>

theorem has_label_behaviour:
  "(loads s = Inr (JArr ls) \<and> (\<forall>l\<in>set ls. \<exists>kvs v. l = JObj kvs \<and> map_of kvs ''name'' = Some v)
      \<longrightarrow> has_label loads (Some s) (JStr n)
            = Inr (\<exists>l\<in>set ls. \<exists>kvs. l = JObj kvs \<and> map_of kvs ''name'' = Some (JStr n))) \<and>
   (loads s = Inl e \<longrightarrow> has_label loads (Some s) (JStr n) = Inl e) \<and>
   has_label loads None (JStr n) = Inl TypeError \<and>
   (loads s = Inr (JScalar a) \<longrightarrow> has_label loads (Some s) (JStr n) = Inl TypeError) \<and>
   (loads s = Inr (JArr (pre @ bad # rest)) \<and>
      (\<forall>l\<in>set pre. \<exists>v. getitem_name l = Inr v \<and> v \<noteq> JStr n) \<and> getitem_name bad = Inl e
      \<longrightarrow> has_label loads (Some s) (JStr n) = Inl e) \<and>
   (loads s = Inr (JArr (pre @ hit # rest)) \<and>
      (\<forall>l\<in>set pre. \<exists>v. getitem_name l = Inr v \<and> v \<noteq> JStr n) \<and> getitem_name hit = Inr (JStr n)
      \<longrightarrow> has_label loads (Some s) (JStr n) = Inr True) \<and>
   (loads s = Inr (JObj []) \<or> loads s = Inr (JStr [])
      \<longrightarrow> has_label loads (Some s) (JStr n) = Inr False)"
proof (intro conjI impI)
  assume a: "loads s = Inr (JArr ls) \<and> (\<forall>l\<in>set ls. \<exists>kvs v. l = JObj kvs \<and> map_of kvs ''name'' = Some v)"
  then have "\<forall>l\<in>set ls. \<exists>v. getitem_name l = Inr v"
    unfolding getitem_name_Inr by blast
  then have "has_label_loop ls (JStr n) = Inr (\<exists>l\<in>set ls. getitem_name l = Inr (JStr n))"
    by (rule has_label_loop_labels)
  with a show "has_label loads (Some s) (JStr n)
            = Inr (\<exists>l\<in>set ls. \<exists>kvs. l = JObj kvs \<and> map_of kvs ''name'' = Some (JStr n))"
    by (simp add: has_label_decoded getitem_name_Inr)
next
  assume "loads s = Inl e"
  then show "has_label loads (Some s) (JStr n) = Inl e"
    unfolding has_label_def json_loads_def by simp
next
  show "has_label loads None (JStr n) = Inl TypeError"
    unfolding has_label_def json_loads_def by simp
next
  assume "loads s = Inr (JScalar a)"
  then show "has_label loads (Some s) (JStr n) = Inl TypeError"
    by (simp add: has_label_decoded)
next
  assume "loads s = Inr (JArr (pre @ bad # rest)) \<and>
      (\<forall>l\<in>set pre. \<exists>v. getitem_name l = Inr v \<and> v \<noteq> JStr n) \<and> getitem_name bad = Inl e"
  then show "has_label loads (Some s) (JStr n) = Inl e"
    by (simp add: has_label_decoded has_label_loop_bad)
next
  assume "loads s = Inr (JArr (pre @ hit # rest)) \<and>
      (\<forall>l\<in>set pre. \<exists>v. getitem_name l = Inr v \<and> v \<noteq> JStr n) \<and> getitem_name hit = Inr (JStr n)"
  then show "has_label loads (Some s) (JStr n) = Inr True"
    by (simp add: has_label_decoded has_label_loop_hit)
next
  assume "loads s = Inr (JObj []) \<or> loads s = Inr (JStr [])"
  then show "has_label loads (Some s) (JStr n) = Inr False"
    by (auto simp: has_label_decoded)
qed

theorem has_label_behaviour_witness:
  "has_label example_decoder (Some labels_bug_firrtl) (JStr ''FIRRTL'') = Inr True \<and>
   has_label example_decoder (Some labels_bug_firrtl) (JStr ''firrtl'') = Inr False \<and>
   has_label example_decoder (Some ''not json'') (JStr ''bug'') = Inl DecodeError \<and>
   has_label example_decoder (Some labels_bug_then_number) (JStr ''FIRRTL'') = Inl TypeError \<and>
   has_label example_decoder (Some labels_bug_then_number) (JStr ''bug'') = Inr True \<and>
   has_label example_decoder (Some ''{}'') (JStr ''bug'') = Inr False"
proof -
  let ?bug = "JObj [(''name'', JStr ''bug'')] :: int json"
  let ?firrtl = "JObj [(''name'', JStr ''FIRRTL'')] :: int json"
  have wf: "\<forall>l\<in>set [?bug, ?firrtl]. \<exists>kvs v. l = JObj kvs \<and> map_of kvs ''name'' = Some v"
    by simp
  have 1: "has_label example_decoder (Some labels_bug_firrtl) (JStr ''FIRRTL'') = Inr True"
    using has_label_behaviour [of example_decoder labels_bug_firrtl "[?bug, ?firrtl]" "''FIRRTL''"]
      example_decoder_values(1) wf by simp
  have 2: "has_label example_decoder (Some labels_bug_firrtl) (JStr ''firrtl'') = Inr False"
    using has_label_behaviour [of example_decoder labels_bug_firrtl "[?bug, ?firrtl]" "''firrtl''"]
      example_decoder_values(1) wf by simp
  have 3: "has_label example_decoder (Some ''not json'') (JStr ''bug'') = Inl DecodeError"
    using has_label_behaviour [of example_decoder "''not json''" _ "''bug''" DecodeError]
      example_decoder_values(6) by blast
  have 4: "has_label example_decoder (Some labels_bug_then_number) (JStr ''FIRRTL'') = Inl TypeError"
    using has_label_behaviour [of example_decoder labels_bug_then_number _ "''FIRRTL''" TypeError _
        "[?bug]" "JScalar 7" "[]"]
      example_decoder_values(4) by simp
  have 5: "has_label example_decoder (Some labels_bug_then_number) (JStr ''bug'') = Inr True"
    using has_label_behaviour [of example_decoder labels_bug_then_number _ "''bug''" _ _
        "[]" _ "[JScalar 7]" "?bug"]
      example_decoder_values(4) by simp
  have 6: "has_label example_decoder (Some ''{}'') (JStr ''bug'') = Inr False"
    using has_label_behaviour [of example_decoder "''{}''" _ "''bug''"]
      example_decoder_values(5) by blast
  from 1 2 3 4 5 6 show ?thesis by simp
qed

text \<open>
  Two label cells that are no sequences of label objects and raise nothing: the empty
  object gives false, and a list whose second element is a number gives true for the
  name of its first element.
\<close>

theorem has_label_silent_counterexample:
  "example_decoder ''{}'' = Inr (JObj []) \<and>
   has_label example_decoder (Some ''{}'') (JStr ''bug'') = Inr False \<and>
   example_decoder labels_bug_then_number = Inr (JArr [JObj [(''name'', JStr ''bug'')], JScalar 7]) \<and>
   has_label example_decoder (Some labels_bug_then_number) (JStr ''bug'') = Inr True"
  by (simp add: example_decoder_values has_label_def json_loads_def)

section \<open>Properties of the label statistics\<close>

lemma apply_column_Inr:
  "(apply_column f xs = Inr ys) = list_all2 (\<lambda>x y. f x = Inr y) xs ys"
proof (induction xs arbitrary: ys)
  case Nil
  then show ?case by auto
next
  case (Cons x xs)
  then show ?case
    by (cases ys) (auto simp: bind_err_Inr)
qed

lemma apply_column_total:
  assumes "\<forall>x\<in>set xs. \<exists>y. f x = Inr y"
  shows "\<exists>ys. apply_column f xs = Inr ys"
  using assms
proof (induction xs)
  case Nil
  then show ?case by simp
next
  case (Cons x xs)
  then obtain y ys where "f x = Inr y" "apply_column f xs = Inr ys" by auto
  then show ?case by simp
qed

lemma count_true:
  "list_all2 (\<lambda>x y. f x = Inr y) xs ys \<Longrightarrow>
     length (filter (\<lambda>b. b) ys) = length (filter (\<lambda>x. f x = Inr True) xs)"
  by (induction xs ys rule: list_all2_induct) auto

lemma label_count_Inr:
  assumes "label_count loads bugs L = Inr cnt"
  shows "cnt = length (filter (\<lambda>(i, r). has_label loads (labels r) L = Inr True) bugs)"
proof -
  from assms obtain hits where
    h: "list_all2 (\<lambda>x y. (case x of (i, r) \<Rightarrow> has_label loads (labels r) L) = Inr y) bugs hits"
    and c: "cnt = length (filter (\<lambda>b. b) hits)"
    unfolding label_count_def bind_err_Inr apply_column_Inr by auto
  have "length (filter (\<lambda>b. b) hits)
      = length (filter (\<lambda>x. (case x of (i, r) \<Rightarrow> has_label loads (labels r) L) = Inr True) bugs)"
    using h by (rule count_true)
  then show ?thesis using c by (simp add: split_def)
qed

lemma add_names_Inr:
  "add_names ls acc = Inr acc' \<Longrightarrow>
     \<exists>ns. apply_column getitem_name ls = Inr ns \<and> set acc' = set acc \<union> set ns"
proof (induction ls arbitrary: acc)
  case Nil
  then show ?case by simp
next
  case (Cons l ls)
  from Cons.prems obtain name where n: "getitem_name l = Inr name"
    and r: "add_names ls (if name \<notin> set acc then acc @ [name] else acc) = Inr acc'"
    by (auto simp: bind_err_Inr split: if_splits)
  from Cons.IH[OF r] obtain ns where "apply_column getitem_name ls = Inr ns"
    and "set acc' = set (if name \<notin> set acc then acc @ [name] else acc) \<union> set ns" by blast
  then have "apply_column getitem_name (l # ls) = Inr (name # ns)"
    and "set acc' = set acc \<union> set (name # ns)"
    using n by auto
  then show ?case by blast
qed

lemma collect_labels_Inr:
  "collect_labels loads bugs acc = Inr acc' \<Longrightarrow>
     (\<forall>x\<in>set bugs. \<exists>ns. label_names loads (snd x) = Inr ns) \<and>
     set acc' = set acc \<union> {v. \<exists>x\<in>set bugs. \<exists>ns. label_names loads (snd x) = Inr ns \<and> v \<in> set ns}"
proof (induction bugs arbitrary: acc)
  case Nil
  then show ?case by simp
next
  case (Cons x bugs)
  obtain idx bug where x: "x = (idx, bug)" by (cases x)
  from Cons.prems obtain j ls acc1 where j: "json_loads loads (labels bug) = Inr j"
    and ls: "iter j = Inr ls" and a: "add_names ls acc = Inr acc1"
    and r: "collect_labels loads bugs acc1 = Inr acc'"
    unfolding x by (auto simp: bind_err_Inr)
  from add_names_Inr[OF a] obtain ns where g: "apply_column getitem_name ls = Inr ns"
    and s: "set acc1 = set acc \<union> set ns" by blast
  have nm: "label_names loads bug = Inr ns"
    unfolding label_names_def using j ls g by simp
  from Cons.IH[OF r] have 1: "\<forall>x\<in>set bugs. \<exists>ns. label_names loads (snd x) = Inr ns"
    and 2: "set acc' = set acc1 \<union> {v. \<exists>x\<in>set bugs. \<exists>ns. label_names loads (snd x) = Inr ns \<and> v \<in> set ns}"
    by blast+
  have "\<forall>y\<in>set (x # bugs). \<exists>ns. label_names loads (snd y) = Inr ns"
    using 1 nm x by simp
  moreover have "set acc' = set acc \<union> {v. \<exists>y\<in>set (x # bugs). \<exists>ns. label_names loads (snd y) = Inr ns \<and> v \<in> set ns}"
    unfolding 2 s using nm x by auto
  ultimately show ?case by blast
qed

lemma has_label_loop_names:
  "apply_column getitem_name ls = Inr ns \<Longrightarrow> has_label_loop ls L = Inr (L \<in> set ns)"
proof (induction ls arbitrary: ns)
  case Nil
  then show ?case by simp
next
  case (Cons l ls)
  from Cons.prems obtain v vs where "getitem_name l = Inr v" "apply_column getitem_name ls = Inr vs"
    "ns = v # vs" by (auto simp: bind_err_Inr)
  with Cons.IH[of vs] show ?case by auto
qed

lemma has_label_names:
  assumes "label_names loads r = Inr ns"
  shows "has_label loads (labels r) L = Inr (L \<in> set ns)"
proof -
  from assms obtain j ls where j: "json_loads loads (labels r) = Inr j" and ls: "iter j = Inr ls"
    and g: "apply_column getitem_name ls = Inr ns"
    unfolding label_names_def bind_err_Inr by blast
  have "has_label loads (labels r) L = has_label_loop ls L"
    unfolding has_label_def using j ls by simp
  then show ?thesis using has_label_loop_names[OF g] by simp
qed

lemma label_count_total:
  assumes "\<forall>x\<in>set bugs. \<exists>ns. label_names loads (snd x) = Inr ns"
  shows "\<exists>cnt. label_count loads bugs L = Inr cnt"
proof -
  have "\<forall>x\<in>set bugs. \<exists>y. (case x of (i, r) \<Rightarrow> has_label loads (labels r) L) = Inr y"
    using assms has_label_names unfolding split_def by blast
  then obtain hits where "apply_column (\<lambda>(i, r). has_label loads (labels r) L) bugs = Inr hits"
    using apply_column_total by blast
  then show ?thesis unfolding label_count_def by simp
qed

lemma label_stats_total:
  assumes "\<forall>x\<in>set bugs. \<exists>ns. label_names loads (snd x) = Inr ns"
  shows "\<exists>stats. label_stats loads bugs names = Inr stats \<and> map fst stats = names \<and>
     (\<forall>(L, cnt, p)\<in>set stats. label_count loads bugs L = Inr cnt \<and> p = proportion cnt (length bugs))"
proof (induction names)
  case Nil
  then show ?case by simp
next
  case (Cons L names)
  from label_count_total[OF assms] obtain cnt where c: "label_count loads bugs L = Inr cnt" by blast
  from Cons obtain stats where s: "label_stats loads bugs names = Inr stats" "map fst stats = names"
    "\<forall>(L, cnt, p)\<in>set stats. label_count loads bugs L = Inr cnt \<and> p = proportion cnt (length bugs)"
    by blast
  show ?case using c s by simp
qed

lemma bug_issues_Inr:
  assumes "bug_issues loads issues_frame = Inr bugs"
  shows "\<forall>x\<in>set bugs. is_bug loads (labels (snd x)) = Inr True"
proof -
  from assms obtain msk where
    m: "list_all2 (\<lambda>x y. (case x of (i, r) \<Rightarrow> is_bug loads (labels r)) = Inr y) issues_frame msk"
    and b: "bugs = map fst (filter snd (zip issues_frame msk))"
    unfolding bug_issues_def bug_mask_def bind_err_Inr apply_column_Inr by auto
  have "\<forall>p\<in>set (zip issues_frame msk). (case fst p of (i, r) \<Rightarrow> is_bug loads (labels r)) = Inr (snd p)"
    using m unfolding list_all2_iff by auto
  then show ?thesis unfolding b by (auto simp: split_def)
qed

lemma proportion_range: "cnt \<le> n \<Longrightarrow> 0 \<le> proportion cnt n \<and> proportion cnt n \<le> 1"
  unfolding proportion_def by (cases "n = 0") (simp_all add: divide_le_eq_1)

text \<open>
  Claim C8. When the bug issues and the set of their label names have been computed,
  the statistics cell returns one line for every name \<open>L\<close> in the set, that is, for every
  name present on at least one bug issue. Its count is the number of bug issues on which
  \<^verbatim>\<open>has_label\<close> holds for \<open>L\<close>, its proportion is the count divided by the number of bug
  issues and lies between 0 and 1, and the proportion of \<^verbatim>\<open>"bug"\<close> is 1. The name
  \<^verbatim>\<open>"bug"\<close> is in the set as soon as there is a bug issue.
\<close>

theorem proportion_bounds:
  assumes "bug_issues loads issues_frame = Inr bugs" and "all_bug_labels loads bugs = Inr names"
  shows "\<exists>stats. label_stats loads bugs names = Inr stats \<and> map fst stats = names \<and>
     (\<forall>(L, cnt, p)\<in>set stats.
         cnt = length (filter (\<lambda>(i, r). has_label loads (labels r) L = Inr True) bugs) \<and>
         p = of_nat cnt / of_nat (length bugs) \<and> 0 \<le> p \<and> p \<le> 1 \<and>
         (L = JStr ''bug'' \<longrightarrow> p = 1)) \<and>
     set names = {L. \<exists>(i, r)\<in>set bugs. has_label loads (labels r) L = Inr True} \<and>
     (bugs \<noteq> [] \<longrightarrow> JStr ''bug'' \<in> set names)"
proof -
  from assms(2) have rd: "\<forall>x\<in>set bugs. \<exists>ns. label_names loads (snd x) = Inr ns"
    and nm: "set names = {v. \<exists>x\<in>set bugs. \<exists>ns. label_names loads (snd x) = Inr ns \<and> v \<in> set ns}"
    unfolding all_bug_labels_def using collect_labels_Inr[of loads bugs "[]" names] by simp_all
  from label_stats_total[OF rd, of names] obtain stats where
    s: "label_stats loads bugs names = Inr stats" "map fst stats = names"
    and t: "\<forall>(L, cnt, p)\<in>set stats. label_count loads bugs L = Inr cnt \<and> p = proportion cnt (length bugs)"
    by blast
  have allbug: "filter (\<lambda>(i, r). has_label loads (labels r) (JStr ''bug'') = Inr True) bugs = bugs"
    using bug_issues_Inr[OF assms(1)] unfolding is_bug_def by (auto simp: split_def)
  have nonempty: "\<And>L cnt p. (L, cnt, p) \<in> set stats \<Longrightarrow> bugs \<noteq> []"
  proof -
    fix L cnt p assume "(L, cnt, p) \<in> set stats"
    then have "L \<in> set names" using s(2) by force
    then show "bugs \<noteq> []" using nm by auto
  qed
  have each: "\<forall>(L, cnt, p)\<in>set stats.
         cnt = length (filter (\<lambda>(i, r). has_label loads (labels r) L = Inr True) bugs) \<and>
         p = of_nat cnt / of_nat (length bugs) \<and> 0 \<le> p \<and> p \<le> 1 \<and>
         (L = JStr ''bug'' \<longrightarrow> p = 1)"
  proof (clarify, intro conjI impI)
    fix L cnt p assume m: "(L, cnt, p) \<in> set stats"
    with t have c: "label_count loads bugs L = Inr cnt" and p: "p = proportion cnt (length bugs)" by auto
    show cnt: "cnt = length (filter (\<lambda>(i, r). has_label loads (labels r) L = Inr True) bugs)"
      using c by (rule label_count_Inr)
    then have le: "cnt \<le> length bugs" by simp
    show "p = of_nat cnt / of_nat (length bugs)" using p unfolding proportion_def .
    show "0 \<le> p" "p \<le> 1" using proportion_range[OF le] p by simp_all
    assume "L = JStr ''bug''"
    with cnt allbug have "cnt = length bugs" by simp
    moreover have "length bugs \<noteq> 0" using nonempty[OF m] by simp
    ultimately show "p = 1" using p unfolding proportion_def by simp
  qed
  have present: "set names = {L. \<exists>(i, r)\<in>set bugs. has_label loads (labels r) L = Inr True}"
  proof -
    have "\<And>x L. x \<in> set bugs \<Longrightarrow>
        (has_label loads (labels (snd x)) L = Inr True)
          = (\<exists>ns. label_names loads (snd x) = Inr ns \<and> L \<in> set ns)"
      using rd has_label_names by fastforce
    then show ?thesis unfolding nm split_def by blast
  qed
  have "bugs \<noteq> [] \<longrightarrow> JStr ''bug'' \<in> set names"
  proof
    assume "bugs \<noteq> []"
    then obtain x where x: "x \<in> set bugs" by (cases bugs) auto
    with bug_issues_Inr[OF assms(1)] have "has_label loads (labels (snd x)) (JStr ''bug'') = Inr True"
      unfolding is_bug_def by blast
    with x show "JStr ''bug'' \<in> set names" unfolding present split_def by blast
  qed
  with s each present show ?thesis by blast
qed

theorem proportion_bounds_witness:
  "bug_issues example_decoder (issues example_classified) = Inr [(0, bug_issue_99), (7, bug_issue_12)] \<and>
   bug_numbers [(0, bug_issue_99), (7, bug_issue_12)] = [99, 12] \<and>
   all_bug_labels example_decoder [(0, bug_issue_99), (7, bug_issue_12)]
     = Inr [JStr ''bug'', JStr ''FIRRTL''] \<and>
   label_stats example_decoder [(0, bug_issue_99), (7, bug_issue_12)] [JStr ''bug'', JStr ''FIRRTL'']
     = Inr [(JStr ''bug'', 2, 1), (JStr ''FIRRTL'', 1, 1 / 2)]"
proof -
  let ?bugs = "[(0, bug_issue_99), (7, bug_issue_12)]"
  have l: "labels bug_issue_99 = Some labels_bug_firrtl" "labels bug_issue_12 = Some labels_bug"
    "labels issue_97 = Some labels_enhancement"
    by (simp_all add: bug_issue_99_def bug_issue_12_def issue_97_def)
  have b: "bug_issues example_decoder (issues example_classified) = Inr ?bugs"
    by (simp add: bug_issues_def bug_mask_def is_bug_def has_label_def json_loads_def
        example_classified_def l example_decoder_values)
  have n: "bug_numbers ?bugs = [99, 12]"
    by (simp add: bug_numbers_def bug_issue_99_def bug_issue_12_def)
  have a: "all_bug_labels example_decoder ?bugs = Inr [JStr ''bug'', JStr ''FIRRTL'']"
    by (simp add: all_bug_labels_def json_loads_def l example_decoder_values)
  from proportion_bounds [OF b a] obtain stats where
    s: "label_stats example_decoder ?bugs [JStr ''bug'', JStr ''FIRRTL''] = Inr stats"
    by blast
  have "label_stats example_decoder ?bugs [JStr ''bug'', JStr ''FIRRTL'']
     = Inr [(JStr ''bug'', 2, 1), (JStr ''FIRRTL'', 1, 1 / 2)]"
    by (simp add: label_count_def has_label_def json_loads_def l example_decoder_values
        proportion_def)
  with b n a s show ?thesis by simp
qed

section \<open>Properties of the linker\<close>

lemma extractall_column_index:
  "((a, k), m) \<in> set (extractall_column ext col df) \<Longrightarrow> a \<in> fst ` set df"
  unfolding extractall_column_def row_matches_def
  by (auto split: option.splits dest!: set_zip_rightD) force

lemma read_csv_index: "(i, r) \<in> set (read_csv rows) \<Longrightarrow> (i, r') \<in> set (read_csv rows) \<Longrightarrow> r = r'"
  unfolding read_csv_def by (auto simp: set_zip)

lemma prs_comments_index_disjoint:
  assumes "classify (read_csv rows) = Inr c"
  shows "fst ` set (prs c) \<inter> fst ` set (pr_comments c) = {}"
proof -
  { fix i r r' assume 1: "(i, r) \<in> set (prs c)" and 2: "(i, r') \<in> set (pr_comments c)"
    from 1 2 assms have "(i, r) \<in> set (read_csv rows)" "(i, r') \<in> set (read_csv rows)"
      unfolding classify_Inr by auto
    then have "r = r'" by (rule read_csv_index)
    with 1 2 assms have False unfolding classify_Inr by auto }
  then show ?thesis by fastforce
qed

text \<open>
  The entries of \<^verbatim>\<open>mentioned_numbers_comments\<close> carry the labels of the comment rows, and
  the loop looks them up under the labels of the pull-request rows. No row is both, so
  the lookup finds nothing: the comments have no part in the result.
\<close>

lemma linker_ignores_comments:
  assumes "classify (read_csv rows) = Inr c"
  shows "prs_that_mention ext bug_values (prs c) (pr_comments c) = prs_that_mention ext bug_values (prs c) []"
proof -
  have "\<And>idx r. (idx, r) \<in> set (prs c) \<Longrightarrow>
          (idx, 0) \<notin> set (map fst (extractall_column ext comment_body (pr_comments c)))"
  proof
    fix idx r assume 1: "(idx, r) \<in> set (prs c)"
      and "(idx, 0) \<in> set (map fst (extractall_column ext comment_body (pr_comments c)))"
    then obtain m where "((idx, 0), m) \<in> set (extractall_column ext comment_body (pr_comments c))"
      by auto
    then have "idx \<in> fst ` set (pr_comments c)" by (rule extractall_column_index)
    moreover from 1 have "idx \<in> fst ` set (prs c)" by force
    ultimately show False using prs_comments_index_disjoint[OF assms] by blast
  qed
  then show ?thesis
    unfolding prs_that_mention_def Let_def mentions_bug_def
    by (intro filter_cong) (auto simp: extractall_column_def)
qed

lemma loc_row_matches:
  "loc (row_matches ext i cell) idx
     = (if i = idx then (case cell of None \<Rightarrow> [] | Some s \<Rightarrow> extractall ext s) else [])"
proof (cases cell)
  case None
  then show ?thesis by (simp add: loc_def row_matches_def)
next
  case (Some s)
  have "map snd (filter (\<lambda>p. i = idx) (zip [0..<length (extractall ext s)] (extractall ext s)))
      = (if i = idx then extractall ext s else [])"
    by simp
  then show ?thesis
    using Some by (simp add: loc_def row_matches_def filter_map comp_def split_def)
qed

lemma loc_append: "loc (xs @ ys) idx = loc xs idx @ loc ys idx"
  by (simp add: loc_def)

lemma loc_foreign:
  "idx \<notin> fst ` set df \<Longrightarrow> loc (extractall_column ext col df) idx = []"
proof (induction df)
  case Nil
  then show ?case by (simp add: extractall_column_def loc_def)
next
  case (Cons x df)
  obtain i r where x: "x = (i, r)" by (cases x)
  from Cons.prems x have "i \<noteq> idx" and "idx \<notin> fst ` set df" by auto
  with Cons.IH have "loc (extractall_column ext col df) idx = []" by simp
  moreover have "extractall_column ext col (x # df) = row_matches ext i (col r) @ extractall_column ext col df"
    unfolding x by (simp add: extractall_column_def)
  ultimately show ?case using \<open>i \<noteq> idx\<close> by (simp add: loc_append loc_row_matches)
qed

lemma loc_extractall_column:
  "distinct (map fst df) \<Longrightarrow> (idx, r) \<in> set df \<Longrightarrow>
     loc (extractall_column ext col df) idx = (case col r of None \<Rightarrow> [] | Some s \<Rightarrow> extractall ext s)"
proof (induction df)
  case Nil
  then show ?case by simp
next
  case (Cons x df)
  obtain i r' where x: "x = (i, r')" by (cases x)
  have step: "extractall_column ext col (x # df) = row_matches ext i (col r') @ extractall_column ext col df"
    unfolding x by (simp add: extractall_column_def)
  show ?case
  proof (cases "(idx, r) = x")
    case True
    then have "i = idx" "r' = r" using x by simp_all
    moreover from Cons.prems(1) x have "i \<notin> fst ` set df" by simp
    ultimately show ?thesis
      using step loc_foreign [of idx df ext col] by (simp add: loc_append loc_row_matches)
  next
    case False
    with Cons.prems(2) have m: "(idx, r) \<in> set df" by simp
    then have "idx \<in> fst ` set df" by force
    with Cons.prems(1) x have "i \<noteq> idx" by auto
    moreover from Cons.prems(1) have "distinct (map fst df)" by simp
    ultimately show ?thesis
      using step Cons.IH m by (simp add: loc_append loc_row_matches)
  qed
qed

lemma first_match_indexed:
  assumes "(idx, r) \<in> set df" and "col r = Some s" and "extractall ext s \<noteq> []"
  shows "(idx, 0) \<in> set (map fst (extractall_column ext col df))"
proof -
  from assms(3) obtain m ms where e: "extractall ext s = m # ms" by (cases "extractall ext s") auto
  have "[0..<length (extractall ext s)] ! 0 = 0 \<and> extractall ext s ! 0 = m \<and> 0 < length (extractall ext s)"
    unfolding e by (simp del: upt_Suc add: nth_upt)
  then have "(0, m) \<in> set (zip [0..<length (extractall ext s)] (extractall ext s))"
    unfolding in_set_zip by (intro exI [of _ 0]) simp
  then have "((idx, 0), m) \<in> set (row_matches ext idx (Some s))"
    unfolding row_matches_def by force
  with assms(1,2) have "((idx, 0), m) \<in> set (extractall_column ext col df)"
    unfolding extractall_column_def by force
  then show ?thesis by force
qed

text \<open>
  What the linker computes: a pull request is selected exactly when a mention in its
  own body is a bug number.
\<close>

lemma linker_own_body:
  assumes "classify (read_csv rows) = Inr c"
  shows "prs_that_mention ext bug_values (prs c) (pr_comments c)
       = filter (\<lambda>(i, r). case body r of None \<Rightarrow> False
                          | Some s \<Rightarrow> list_ex (\<lambda>n. n \<in> set bug_values) (mentions ext s)) (prs c)"
proof -
  have d: "distinct (map fst (prs c))"
  proof -
    have "distinct (map fst (read_csv rows))"
      unfolding read_csv_def by simp
    moreover have "prs c = filter (\<lambda>x. closed_at (snd x) \<noteq> None \<and> pr_filter (snd x) = Some True
        \<and> comment_created_at (snd x) = None) (read_csv rows)"
      using assms unfolding classify_Inr by simp
    ultimately show ?thesis by (simp add: distinct_map_filter)
  qed
  have "\<And>idx r. (idx, r) \<in> set (prs c) \<Longrightarrow>
      mentions_bug ext bug_values (extractall_column ext body (prs c)) [] idx
      = (case body r of None \<Rightarrow> False | Some s \<Rightarrow> list_ex (\<lambda>n. n \<in> set bug_values) (mentions ext s))"
  proof -
    fix idx r assume m: "(idx, r) \<in> set (prs c)"
    have l: "loc (extractall_column ext body (prs c)) idx
        = (case body r of None \<Rightarrow> [] | Some s \<Rightarrow> extractall ext s)"
      using d m by (rule loc_extractall_column)
    show "mentions_bug ext bug_values (extractall_column ext body (prs c)) [] idx
      = (case body r of None \<Rightarrow> False | Some s \<Rightarrow> list_ex (\<lambda>n. n \<in> set bug_values) (mentions ext s))"
    proof (cases "body r")
      case None
      with l show ?thesis by (simp add: mentions_bug_def does_mention_bug_def)
    next
      case (Some s)
      show ?thesis
      proof (cases "extractall ext s = []")
        case True
        with l Some show ?thesis by (simp add: mentions_bug_def does_mention_bug_def mentions_def)
      next
        case False
        from first_match_indexed [of idx r "prs c" body s ext, OF m Some False] l Some show ?thesis
          by (simp add: mentions_bug_def does_mention_bug_def mentions_def)
      qed
    qed
  qed
  then have "prs_that_mention ext bug_values (prs c) [] 
       = filter (\<lambda>(i, r). case body r of None \<Rightarrow> False
                          | Some s \<Rightarrow> list_ex (\<lambda>n. n \<in> set bug_values) (mentions ext s)) (prs c)"
    unfolding prs_that_mention_def Let_def
    by (intro filter_cong) (auto simp: extractall_column_def)
  then show ?thesis using linker_ignores_comments [OF assms] by simp
qed

text \<open>
  Claim C1, on the small export, whose bug issues have the numbers 99 and 12. The
  pull request 102 has no body and one comment, grouped to it by the shared
  \<^verbatim>\<open>issue.url\<close>, whose text \<^verbatim>\<open>#99\<close> mentions the bug number 99. The linker returns only
  the pull request 100, whose own body mentions 12: the pull request 102 is not linked.
\<close>

theorem linker_misses_comment_mention:
  "classify (read_csv example_export) = Inr example_classified \<and>
   (3, pr_102) \<in> set (prs example_classified) \<and>
   (4, pr_102_comment) \<in> set (pr_comments example_classified) \<and>
   url pr_102_comment = url pr_102 \<and>
   body pr_102 = None \<and>
   comment_body pr_102_comment = Some (codepoints ''#99'') \<and>
   mentions ext (codepoints ''#99'') = [99] \<and>
   bug_numbers [(0, bug_issue_99), (7, bug_issue_12)] = [99, 12] \<and>
   prs_that_mention ext [99, 12] (prs example_classified) (pr_comments example_classified)
     = [(1, pr_100)]"
proof -
  have "prs_that_mention ext [99, 12] (prs example_classified) (pr_comments example_classified)
     = [(1, pr_100)]"
    unfolding example_classified_def prs_that_mention_def
    by (simp add: extractall_column_def row_matches_def mentions_bug_def does_mention_bug_def
        loc_def mention_eval upt_rec pr_100_def pr_101_def pr_102_def pr_102_comment_def)
  moreover have "mentions ext (codepoints ''#99'') = [99]"
    by (simp add: mention_eval)
  moreover have "bug_numbers [(0, bug_issue_99), (7, bug_issue_12)] = [99, 12]"
    by (simp add: bug_numbers_def bug_issue_99_def bug_issue_12_def)
  moreover have "(3, pr_102) \<in> set (prs example_classified)"
    "(4, pr_102_comment) \<in> set (pr_comments example_classified)"
    by (simp_all add: example_classified_def)
  moreover have "url pr_102_comment = url pr_102" "body pr_102 = None"
    "comment_body pr_102_comment = Some (codepoints ''#99'')"
    by (simp_all add: pr_102_comment_def pr_102_def)
  ultimately show ?thesis using classify_example by simp
qed

end
